theory Spec2Isabelle
  imports Complex_Main
begin

section \<open>Python values: errors, number formatting, indexing\<close>

text \<open>
  The model follows \<^verbatim>\<open>src/cvpack/rmsd_content.py\<close> (class \<^verbatim>\<open>RMSDContent\<close>) and
  \<^verbatim>\<open>src/cvpack/sheet_rmsd_content.py\<close> (class \<^verbatim>\<open>SheetRMSDContent\<close>).
  Python integers are \<^typ>\<open>int\<close>, lengths and atom indices are \<^typ>\<open>nat\<close>, and every
  \<^verbatim>\<open>raise\<close> of the source is an \<^verbatim>\<open>Inl\<close> value carrying the exception class and,
  for the messages the source formats, the message text.
\<close>

datatype error =
    ValueError string
  | KeyError string
  | IndexError
  | UnboundLocalError string

text \<open>\<^verbatim>\<open>str(n)\<close> of a non-negative integer, and of any integer.\<close>

fun str_nat :: "nat \<Rightarrow> string" where
  "str_nat n =
     (if n < 10 then [''0123456789'' ! n]
      else str_nat (n div 10) @ [''0123456789'' ! (n mod 10)])"

declare str_nat.simps [simp del]

definition str_int :: "int \<Rightarrow> string" where
  "str_int i = (if i < 0 then ''-'' @ str_nat (nat (- i)) else str_nat (nat i))"

text \<open>\<^verbatim>\<open>xs[i]\<close> on a Python list: a negative index counts from the end, an index out of
  range raises \<^verbatim>\<open>IndexError\<close>.\<close>

definition list_getitem :: "'a list \<Rightarrow> int \<Rightarrow> error + 'a" where
  "list_getitem xs i =
     (let n = int (length xs); j = (if i < 0 then i + n else i)
      in if 0 \<le> j \<and> j < n then Inr (xs ! nat j) else Inl IndexError)"

text \<open>\<^verbatim>\<open>list(map(f, xs))\<close> and a list comprehension whose body may raise: the first
  exception ends the traversal.\<close>

fun map_result :: "('a \<Rightarrow> error + 'b) \<Rightarrow> 'a list \<Rightarrow> error + 'b list" where
  "map_result f [] = Inr []"
| "map_result f (x # xs) =
     (case f x of
        Inl e \<Rightarrow> Inl e
      | Inr y \<Rightarrow> (case map_result f xs of Inl e \<Rightarrow> Inl e | Inr ys \<Rightarrow> Inr (y # ys)))"

text \<open>A \<^verbatim>\<open>for\<close> loop over a list, threading a state, stopped by the first exception.\<close>

fun for_loop :: "('a \<Rightarrow> 's \<Rightarrow> error + 's) \<Rightarrow> 'a list \<Rightarrow> 's \<Rightarrow> error + 's" where
  "for_loop body [] s = Inr s"
| "for_loop body (x # xs) s =
     (case body x s of Inl e \<Rightarrow> Inl e | Inr s' \<Rightarrow> for_loop body xs s')"

text \<open>\<^verbatim>\<open>range(a, b)\<close> over Python integers (empty when \<open>b \<le> a\<close>), and
  \<^verbatim>\<open>sep.join(parts)\<close>.\<close>

definition py_range :: "int \<Rightarrow> int \<Rightarrow> int list" where
  "py_range a b = [a..b - 1]"

fun join :: "'a list \<Rightarrow> 'a list list \<Rightarrow> 'a list" where
  "join sep [] = []"
| "join sep [x] = x"
| "join sep (x # y # ys) = x @ sep @ join sep (y # ys)"


section \<open>Residues and the five-atom list (\<^verbatim>\<open>RMSDContent._getAtomList\<close>)\<close>

text \<open>
  A topology residue, as far as the source reads it: \<^verbatim>\<open>residue.name\<close>,
  \<^verbatim>\<open>residue.id\<close> (a string in the topology) and \<^verbatim>\<open>residue.atoms()\<close>, each atom
  given by its \<^verbatim>\<open>name\<close> and \<^verbatim>\<open>index\<close>.
\<close>

record residue =
  name :: string
  id_str :: string
  atoms :: "(string \<times> nat) list"

text \<open>The dictionary comprehension \<^verbatim>\<open>{atom.name: atom.index for atom in residue.atoms()}\<close>:
  a later atom of the same name overwrites an earlier one.\<close>

definition residue_atoms :: "residue \<Rightarrow> (string \<rightharpoonup> nat)" where
  "residue_atoms r = map_of (rev (atoms r))"

definition atom_not_found :: "string \<Rightarrow> residue \<Rightarrow> string" where
  "atom_not_found atom r = ''Atom '' @ atom @ '' not found in residue '' @ name r @ id_str r"

text \<open>The loop over \<^verbatim>\<open>("N", "CA", "CB", "C", "O")\<close>: the \<^verbatim>\<open>KeyError\<close> of a failed
  lookup is caught and raised again as a \<^verbatim>\<open>ValueError\<close> with the formatted message.\<close>

fun atom_loop :: "residue \<Rightarrow> (string \<rightharpoonup> nat) \<Rightarrow> string list \<Rightarrow> nat list \<Rightarrow> error + nat list" where
  "atom_loop r d [] atom_list = Inr atom_list"
| "atom_loop r d (atom # rest) atom_list =
     (case d atom of
        None \<Rightarrow> Inl (ValueError (atom_not_found atom r))
      | Some ix \<Rightarrow> atom_loop r d rest (atom_list @ [ix]))"

text \<open>\<^verbatim>\<open>_getAtomList\<close>. For a residue named GLY the assignment
  \<^verbatim>\<open>residue_atoms["CB"] = residue_atoms["HA2"]\<close> stands before the loop and outside its
  \<^verbatim>\<open>try\<close>: a missing HA2 raises the bare \<^verbatim>\<open>KeyError\<close>.\<close>

definition getAtomList :: "residue \<Rightarrow> error + nat list" where
  "getAtomList r =
     (let d = residue_atoms r in
      if name r = ''GLY'' then
        (case d ''HA2'' of
           None \<Rightarrow> Inl (KeyError ''HA2'')
         | Some h \<Rightarrow> atom_loop r (d(''CB'' \<mapsto> h)) [''N'', ''CA'', ''CB'', ''C'', ''O''] [])
      else atom_loop r d [''N'', ''CA'', ''CB'', ''C'', ''O''] [])"


section \<open>Expression texts\<close>

text \<open>
  The source assembles the energy expressions of the engine's \<^verbatim>\<open>CustomCVForce\<close> as
  strings. The model keeps each string as the list of its lexical tokens:
  \<^item> \<open>TStep i\<close> is the text \<^verbatim>\<open>stepFunction.replace("x", f"x{i}")\<close>, one summand;
  \<^item> \<open>TVar (X i)\<close>, \<open>TVar (Rmsd i)\<close>, \<open>TVar (Chunk i)\<close> are the names \<^verbatim>\<open>x{i}\<close>,
    \<^verbatim>\<open>rmsd{i}\<close>, \<^verbatim>\<open>chunk{i}\<close>;
  \<^item> \<open>TThreshold\<close> is the text \<^verbatim>\<open>{thresholdRMSD}\<close> and \<open>TNum n\<close> the text of an integer;
  \<^item> the others are the single characters \<^verbatim>\<open>+ / ; = ( )\<close>.
  \<open>render\<close> gives the string a token list stands for, so every string the source
  builds can be read off the model. The source replaces every letter \<^verbatim>\<open>x\<close> of the
  step-function text, so \<open>TStep i\<close> denotes the step function at \<^verbatim>\<open>x{i}\<close> for a text in
  which \<^verbatim>\<open>x\<close> occurs only as the variable, as in the default \<^verbatim>\<open>(1+x^4)/(1+x^4+x^8)\<close>.
\<close>

datatype varname = X nat | Rmsd nat | Chunk nat

datatype token =
    TStep nat
  | TVar varname
  | TThreshold
  | TNum nat
  | TPlus
  | TSlash
  | TSemi
  | TEq
  | TLParen
  | TRParen

fun render_var :: "varname \<Rightarrow> string" where
  "render_var (X i) = ''x'' @ str_nat i"
| "render_var (Rmsd i) = ''rmsd'' @ str_nat i"
| "render_var (Chunk i) = ''chunk'' @ str_nat i"

text \<open>\<^verbatim>\<open>s.replace("x", new)\<close>: every character \<^verbatim>\<open>x\<close> of \<open>s\<close> becomes \<open>new\<close>.\<close>

definition replace_x :: "string \<Rightarrow> string \<Rightarrow> string" where
  "replace_x s new = concat (map (\<lambda>c. if c = CHR ''x'' then new else [c]) s)"

fun render_token :: "string \<Rightarrow> string \<Rightarrow> token \<Rightarrow> string" where
  "render_token stepFunction thresholdRMSD (TStep i) = replace_x stepFunction (''x'' @ str_nat i)"
| "render_token stepFunction thresholdRMSD (TVar v) = render_var v"
| "render_token stepFunction thresholdRMSD TThreshold = thresholdRMSD"
| "render_token stepFunction thresholdRMSD (TNum n) = str_nat n"
| "render_token stepFunction thresholdRMSD TPlus = ''+''"
| "render_token stepFunction thresholdRMSD TSlash = ''/''"
| "render_token stepFunction thresholdRMSD TSemi = '';''"
| "render_token stepFunction thresholdRMSD TEq = ''=''"
| "render_token stepFunction thresholdRMSD TLParen = ''(''"
| "render_token stepFunction thresholdRMSD TRParen = '')''"

definition render :: "string \<Rightarrow> string \<Rightarrow> token list \<Rightarrow> string" where
  "render stepFunction thresholdRMSD ts = concat (map (render_token stepFunction thresholdRMSD) ts)"

text \<open>The local function \<^verbatim>\<open>expression(start)\<close> of \<^verbatim>\<open>RMSDContent.__init__\<close>: the summands
  and definitions of the groups \<^verbatim>\<open>range(start, min(start + 32, num_residue_blocks))\<close>.\<close>

definition summands :: "nat \<Rightarrow> nat \<Rightarrow> token list list" where
  "summands n start = map (\<lambda>i. [TStep i]) [start ..< min (start + 32) n]"

definition definitions :: "nat \<Rightarrow> nat \<Rightarrow> token list list" where
  "definitions n start =
     map (\<lambda>i. [TVar (X i), TEq, TVar (Rmsd i), TSlash, TThreshold]) [start ..< min (start + 32) n]"

definition expression :: "nat \<Rightarrow> nat \<Rightarrow> token list" where
  "expression n start = join [TSemi] (join [TPlus] (summands n start) # definitions n start)"

text \<open>The text given to \<^verbatim>\<open>super().__init__\<close>: \<^verbatim>\<open>summation\<close>, wrapped as
  \<^verbatim>\<open>f"({summation})/{num_residue_blocks}"\<close> when \<^verbatim>\<open>normalize\<close> is set.\<close>

definition summation :: "nat \<Rightarrow> token list" where
  "summation n =
     (if n \<le> 32 then expression n 0
      else join [TPlus] (map (\<lambda>i. [TVar (Chunk i)]) [0 ..< (n + 31) div 32]))"

definition top_expression :: "nat \<Rightarrow> bool \<Rightarrow> token list" where
  "top_expression n normalise =
     (if normalise then [TLParen] @ summation n @ [TRParen, TSlash, TNum n] else summation n)"


section \<open>Force objects and \<^verbatim>\<open>RMSDContent.__init__\<close>\<close>

text \<open>
  The force objects live in a store (a list, the address of an object being its
  position): the composite \<^verbatim>\<open>self\<close> is at address 0 and every
  \<^verbatim>\<open>openmm.CustomCVForce(...)\<close> allocates the next address. A collective variable of a
  force is either a leaf \<^verbatim>\<open>RMSD(ideal_positions, atoms, numAtoms)\<close> or a reference to
  another force of the store, so that variables added to a chunk after the chunk was
  registered with \<^verbatim>\<open>self\<close> are seen through \<^verbatim>\<open>self\<close>, as in the source. The class
  \<^verbatim>\<open>RMSD\<close> is imported from a module that is not among the sources: a leaf records the
  arguments of its constructor call, and what it is worth at given coordinates is a
  parameter of the evaluation below.
\<close>

type_synonym vec3 = "real \<times> real \<times> real"

datatype cv = RMSD "vec3 list" "nat list" int | CVForce nat

record CustomCVForce =
  energy :: "token list"
  variables :: "(varname \<times> cv) list"

type_synonym store = "CustomCVForce list"

definition addCollectiveVariable :: "nat \<Rightarrow> varname \<Rightarrow> cv \<Rightarrow> store \<Rightarrow> store" where
  "addCollectiveVariable a nm v h = h[a := (h ! a)\<lparr>variables := variables (h ! a) @ [(nm, v)]\<rparr>]"

text \<open>\<^verbatim>\<open>block_atoms\<close>: for each block the concatenation
  \<^verbatim>\<open>sum([residue_atoms[index] for index in block], [])\<close>.\<close>

definition block_atoms_of :: "nat list list \<Rightarrow> int list list \<Rightarrow> error + nat list list" where
  "block_atoms_of atom_lists residue_blocks =
     map_result
       (\<lambda>block. case map_result (list_getitem atom_lists) block of
                  Inl e \<Rightarrow> Inl e
                | Inr ls \<Rightarrow> Inr (concat ls))
       residue_blocks"

text \<open>One turn of the loop \<^verbatim>\<open>for index in range(num_residue_blocks)\<close>. The loop state is
  the store and the local variable \<^verbatim>\<open>force\<close> (an address, or unbound).\<close>

definition loop_body ::
  "vec3 list \<Rightarrow> nat list list \<Rightarrow> int \<Rightarrow> nat \<Rightarrow> nat \<Rightarrow> store \<times> nat option \<Rightarrow> error + store \<times> nat option" where
  "loop_body ideal_positions block_atoms numAtoms n index s =
     (let (h1, force1) =
            (if n > 32 \<and> index mod 32 = 0 then
               (addCollectiveVariable 0 (Chunk (index div 32)) (CVForce (length (fst s)))
                  (fst s @ [\<lparr>energy = expression n index, variables = []\<rparr>]),
                Some (length (fst s)))
             else s)
      in case force1 of
           None \<Rightarrow> Inl (UnboundLocalError ''force'')
         | Some f \<Rightarrow>
             Inr (addCollectiveVariable f (Rmsd index)
                    (RMSD ideal_positions (block_atoms ! index) numAtoms) h1, force1))"

text \<open>The constructed object: the attribute \<^verbatim>\<open>_num_residue_blocks\<close> and the store of forces
  with \<^verbatim>\<open>self\<close> at address 0. The arguments \<^verbatim>\<open>thresholdRMSD\<close> and \<^verbatim>\<open>stepFunction\<close> of the
  source only enter the expression texts, where the tokens \<open>TThreshold\<close> and \<open>TStep\<close> stand
  for them; they are arguments of \<open>render\<close> and of the evaluation instead.\<close>

record RMSDContent =
  num_residue_blocks :: nat
  forces :: store

definition not_between :: "nat \<Rightarrow> nat \<Rightarrow> string" where
  "not_between num_residues n =
     str_nat num_residues @ '' residues yield '' @ str_nat n
       @ '' blocks, which is not between 1 and 1024''"

definition RMSDContent_init ::
  "int list list \<Rightarrow> vec3 list \<Rightarrow> residue list \<Rightarrow> int \<Rightarrow> bool \<Rightarrow> error + RMSDContent" where
  "RMSDContent_init residue_blocks ideal_positions residues numAtoms normalise =
     (let n = length residue_blocks in
      if \<not> (1 \<le> n \<and> n \<le> 1024) then Inl (ValueError (not_between (length residues) n))
      else
        case map_result getAtomList residues of
          Inl e \<Rightarrow> Inl e
        | Inr atom_lists \<Rightarrow>
            (case block_atoms_of atom_lists residue_blocks of
               Inl e \<Rightarrow> Inl e
             | Inr block_atoms \<Rightarrow>
                 (case for_loop (loop_body ideal_positions block_atoms numAtoms n) [0 ..< n]
                         ([\<lparr>energy = top_expression n normalise, variables = []\<rparr>],
                          if n \<le> 32 then Some 0 else None) of
                    Inl e \<Rightarrow> Inl e
                  | Inr s \<Rightarrow> Inr \<lparr>num_residue_blocks = n, forces = fst s\<rparr>)))"

definition getNumResidueBlocks :: "RMSDContent \<Rightarrow> nat" where
  "getNumResidueBlocks self = num_residue_blocks self"


section \<open>Residue groups (\<^verbatim>\<open>SheetRMSDContent.__init__\<close>)\<close>

definition min_distance :: "bool \<Rightarrow> int" where
  "min_distance parallel = (if parallel then 6 else 5)"

definition unblocked_groups :: "int \<Rightarrow> bool \<Rightarrow> int list list" where
  "unblocked_groups n parallel =
     [[i, i + 1, i + 2, j, j + 1, j + 2].
        i \<leftarrow> py_range 0 (n - 2 - min_distance parallel),
        j \<leftarrow> py_range (i + min_distance parallel) (n - 2)]"

text \<open>\<^verbatim>\<open>np.cumsum\<close> and \<^verbatim>\<open>bounds = np.insert(np.cumsum(blockSizes), 0, 0)\<close>. The array
  library turns a list of Python integers that each fit in 64 bits into an array of
  signed 64-bit integers, and its sums wrap around: \<open>wrap64\<close> is the value a signed
  64-bit integer holds after an operation whose exact result is \<open>x\<close>. The entries of
  \<^verbatim>\<open>bounds\<close> are 64-bit scalars, so \<^verbatim>\<open>bounds[k + 1] - 2\<close> wraps as well, while the
  indices a \<^verbatim>\<open>range\<close> yields are Python integers again. A block size outside the
  64-bit range makes an array of another type and is outside this model.\<close>

definition wrap64 :: "int \<Rightarrow> int" where
  "wrap64 x = (x + 2 ^ 63) mod 2 ^ 64 - 2 ^ 63"

fun cumsum_from :: "int \<Rightarrow> int list \<Rightarrow> int list" where
  "cumsum_from acc [] = []"
| "cumsum_from acc (x # xs) = wrap64 (acc + x) # cumsum_from (wrap64 (acc + x)) xs"

definition bounds_of :: "int list \<Rightarrow> int list" where
  "bounds_of blockSizes = 0 # cumsum_from 0 blockSizes"

definition blocked_groups :: "int list \<Rightarrow> int list list" where
  "blocked_groups blockSizes =
     (let bounds = bounds_of blockSizes in
      [[i, i + 1, i + 2, j, j + 1, j + 2].
         k \<leftarrow> [0 ..< length blockSizes - 1],
         i \<leftarrow> py_range (bounds ! k) (wrap64 (bounds ! (k + 1) - 2)),
         j \<leftarrow> py_range (bounds ! (k + 1)) (wrap64 (bounds ! (k + 2) - 2))])"

definition sum_mismatch :: "int \<Rightarrow> nat \<Rightarrow> string" where
  "sum_mismatch block_sum num_residues =
     ''The sum of block sizes ('' @ str_int block_sum @ '') and the number of residues (''
       @ str_nat num_residues @ '') must be equal.''"

text \<open>\<^verbatim>\<open>SheetRMSDContent.__init__\<close>. The two ideal geometries are module constants
  loaded from data files that are not part of the sources; they are parameters here.
  The closing \<^verbatim>\<open>_registerCV\<close> call of the source only records the constructor arguments
  for serialization and is left out.\<close>

definition SheetRMSDContent_init ::
  "vec3 list \<Rightarrow> vec3 list \<Rightarrow> residue list \<Rightarrow> int \<Rightarrow> bool \<Rightarrow> int list option \<Rightarrow> bool
     \<Rightarrow> error + RMSDContent" where
  "SheetRMSDContent_init PARABETA_POSITIONS ANTIBETA_POSITIONS residues numAtoms parallel
       blockSizes normalise =
     (case (case blockSizes of
              None \<Rightarrow> Inr (unblocked_groups (int (length residues)) parallel)
            | Some bs \<Rightarrow>
                if sum_list bs = int (length residues) then Inr (blocked_groups bs)
                else Inl (ValueError (sum_mismatch (sum_list bs) (length residues)))) of
        Inl e \<Rightarrow> Inl e
      | Inr residue_groups \<Rightarrow>
          RMSDContent_init residue_groups
            (if parallel then PARABETA_POSITIONS else ANTIBETA_POSITIONS)
            residues numAtoms normalise)"


section \<open>The engine's reading of an expression\<close>

text \<open>
  What a composite is worth is decided by the simulation engine, which parses each
  energy text and evaluates it over the values of the force's collective variables.
  The engine is not part of the sources; this section fixes the part of its reading
  that the assembled texts use, over the reals:
  \<^item> a text is split at \<^verbatim>\<open>;\<close> into the primary expression and the definitions
    \<^verbatim>\<open>name=value\<close>, read from the last to the first;
  \<^item> a primary expression is a sum of terms, or a parenthesised sum divided by an
    integer; a definition's value is a term or a quotient of two terms;
  \<^item> the term \<open>TStep i\<close> is worth \<open>S\<close> at the value of \<open>x{i}\<close>, where \<open>S\<close> is the
    function the step-function text denotes;
  \<^item> an unknown name, a division by zero and any other shape have no value
    (\<open>None\<close>): the engine rejects them.
  A leaf \<^verbatim>\<open>RMSD\<close> variable is worth \<open>rho\<close> of its arguments (the alignment kernel's
  result at the current coordinates, a parameter), a force variable is worth the value
  of the force it refers to. The recursion through the store is bounded by \<open>fuel\<close>.
\<close>

fun split_on :: "'a \<Rightarrow> 'a list \<Rightarrow> 'a list list" where
  "split_on sep [] = [[]]"
| "split_on sep (t # ts) =
     (if t = sep then [] # split_on sep ts
      else (case split_on sep ts of [] \<Rightarrow> [[t]] | s # ss \<Rightarrow> (t # s) # ss))"

fun token_value :: "(real \<Rightarrow> real) \<Rightarrow> real \<Rightarrow> (varname \<rightharpoonup> real) \<Rightarrow> token \<Rightarrow> real option" where
  "token_value S thr env (TStep i) = map_option S (env (X i))"
| "token_value S thr env (TVar v) = env v"
| "token_value S thr env TThreshold = Some thr"
| "token_value S thr env (TNum k) = Some (real k)"
| "token_value S thr env t = None"

fun term_value :: "(real \<Rightarrow> real) \<Rightarrow> real \<Rightarrow> (varname \<rightharpoonup> real) \<Rightarrow> token list \<Rightarrow> real option" where
  "term_value S thr env [t] = token_value S thr env t"
| "term_value S thr env ts = None"

fun divide_values :: "real option \<Rightarrow> real option \<Rightarrow> real option" where
  "divide_values (Some a) (Some b) = (if b = 0 then None else Some (a / b))"
| "divide_values a b = None"

fun quotient_value ::
  "(real \<Rightarrow> real) \<Rightarrow> real \<Rightarrow> (varname \<rightharpoonup> real) \<Rightarrow> token list list \<Rightarrow> real option" where
  "quotient_value S thr env [a] = term_value S thr env a"
| "quotient_value S thr env [a, b] = divide_values (term_value S thr env a) (term_value S thr env b)"
| "quotient_value S thr env parts = None"

definition sum_value :: "(real \<Rightarrow> real) \<Rightarrow> real \<Rightarrow> (varname \<rightharpoonup> real) \<Rightarrow> token list \<Rightarrow> real option" where
  "sum_value S thr env ts =
     map_option sum_list (those (map (term_value S thr env) (split_on TPlus ts)))"

fun unwrap :: "token list \<Rightarrow> (token list \<times> nat) option" where
  "unwrap (TNum k # TSlash # TRParen # inner) = Some (rev inner, k)"
| "unwrap ts = None"

fun primary_value :: "(real \<Rightarrow> real) \<Rightarrow> real \<Rightarrow> (varname \<rightharpoonup> real) \<Rightarrow> token list \<Rightarrow> real option" where
  "primary_value S thr env (TLParen # rest) =
     (case unwrap (rev rest) of
        None \<Rightarrow> None
      | Some (inner, k) \<Rightarrow> divide_values (sum_value S thr env inner) (Some (real k)))"
| "primary_value S thr env ts = sum_value S thr env ts"

fun add_definition ::
  "(real \<Rightarrow> real) \<Rightarrow> real \<Rightarrow> token list \<Rightarrow> (varname \<rightharpoonup> real) option \<Rightarrow> (varname \<rightharpoonup> real) option" where
  "add_definition S thr (TVar v # TEq # rhs) (Some env) =
     (case quotient_value S thr env (split_on TSlash rhs) of
        None \<Rightarrow> None
      | Some x \<Rightarrow> Some (env(v \<mapsto> x)))"
| "add_definition S thr ts env = None"

definition energy_value :: "(real \<Rightarrow> real) \<Rightarrow> real \<Rightarrow> (varname \<rightharpoonup> real) \<Rightarrow> token list \<Rightarrow> real option" where
  "energy_value S thr env ts =
     (case split_on TSemi ts of
        [] \<Rightarrow> None
      | primary # defs \<Rightarrow>
          (case foldr (add_definition S thr) defs (Some env) of
             None \<Rightarrow> None
           | Some env' \<Rightarrow> primary_value S thr env' primary))"

fun force_value ::
  "(real \<Rightarrow> real) \<Rightarrow> real \<Rightarrow> (vec3 list \<Rightarrow> nat list \<Rightarrow> int \<Rightarrow> real) \<Rightarrow> store \<Rightarrow> nat \<Rightarrow> nat \<Rightarrow> real option" where
  "force_value S thr rho h 0 a = None"
| "force_value S thr rho h (Suc fuel) a =
     (if a < length h then
        energy_value S thr
          (\<lambda>v. case map_of (variables (h ! a)) v of
                 None \<Rightarrow> None
               | Some (RMSD ps ats na) \<Rightarrow> Some (rho ps ats na)
               | Some (CVForce b) \<Rightarrow> force_value S thr rho h fuel b)
          (energy (h ! a))
      else None)"

definition getValue ::
  "(real \<Rightarrow> real) \<Rightarrow> real \<Rightarrow> (vec3 list \<Rightarrow> nat list \<Rightarrow> int \<Rightarrow> real) \<Rightarrow> nat \<Rightarrow> RMSDContent \<Rightarrow> real option" where
  "getValue S thr rho fuel self = force_value S thr rho (forces self) fuel 0"



section \<open>Closed forms used in the statements\<close>

text \<open>The collective variable that the loop adds for group \<open>i\<close>:
  \<^verbatim>\<open>("rmsd{i}", RMSD(ideal_positions, block_atoms[i], numAtoms))\<close>.\<close>

definition leaf :: "vec3 list \<Rightarrow> nat list list \<Rightarrow> int \<Rightarrow> nat \<Rightarrow> varname \<times> cv" where
  "leaf ideal_positions block_atoms numAtoms i =
     (Rmsd i, RMSD ideal_positions (block_atoms ! i) numAtoms)"

text \<open>Chunk \<open>k\<close> after the loop has handled the groups below \<open>m\<close>: its text is
  \<^verbatim>\<open>expression(32 * k)\<close> and it holds the groups of its range handled so far.\<close>

definition chunk_force :: "vec3 list \<Rightarrow> nat list list \<Rightarrow> int \<Rightarrow> nat \<Rightarrow> nat \<Rightarrow> nat \<Rightarrow> CustomCVForce" where
  "chunk_force ideal_positions block_atoms numAtoms n m k =
     \<lparr>energy = expression n (32 * k),
      variables = map (leaf ideal_positions block_atoms numAtoms) [32 * k ..< min (32 * k + 32) m]\<rparr>"

text \<open>The store after the loop has handled the groups below \<open>m\<close>, when more than 32 groups
  are assembled: \<^verbatim>\<open>self\<close> with one variable \<^verbatim>\<open>chunk{k}\<close> per chunk, then the chunks.\<close>

definition chunked_store ::
  "token list \<Rightarrow> vec3 list \<Rightarrow> nat list list \<Rightarrow> int \<Rightarrow> nat \<Rightarrow> nat \<Rightarrow> store" where
  "chunked_store e ideal_positions block_atoms numAtoms n m =
     \<lparr>energy = e, variables = map (\<lambda>k. (Chunk k, CVForce (Suc k))) [0 ..< (m + 31) div 32]\<rparr>
       # map (chunk_force ideal_positions block_atoms numAtoms n m) [0 ..< (m + 31) div 32]"

text \<open>The store a construction over \<open>n\<close> groups ends with.\<close>

definition assembled :: "nat \<Rightarrow> bool \<Rightarrow> vec3 list \<Rightarrow> nat list list \<Rightarrow> int \<Rightarrow> store" where
  "assembled n normalise ideal_positions block_atoms numAtoms =
     (if n \<le> 32 then
        [\<lparr>energy = top_expression n normalise,
          variables = map (leaf ideal_positions block_atoms numAtoms) [0 ..< n]\<rparr>]
      else chunked_store (top_expression n normalise) ideal_positions block_atoms numAtoms n n)"

text \<open>The definition text \<^verbatim>\<open>x{i}=rmsd{i}/{thresholdRMSD}\<close>.\<close>

definition definition_of :: "nat \<Rightarrow> token list" where
  "definition_of i = [TVar (X i), TEq, TVar (Rmsd i), TSlash, TThreshold]"

text \<open>The text \<^verbatim>\<open>expression\<close> builds, for any list of group indices.\<close>

definition expression_over :: "nat list \<Rightarrow> token list" where
  "expression_over ixs =
     join [TSemi] (join [TPlus] (map (\<lambda>i. [TStep i]) ixs) # map definition_of ixs)"


text \<open>The variables of a force, extended by the values \<open>r i / thr\<close> of the definitions of
  the groups \<open>ixs\<close>.\<close>

definition defined_env :: "(varname \<rightharpoonup> real) \<Rightarrow> (nat \<Rightarrow> real) \<Rightarrow> real \<Rightarrow> nat list \<Rightarrow> (varname \<rightharpoonup> real)" where
  "defined_env env r thr ixs =
     (\<lambda>v. case v of X i \<Rightarrow> (if i \<in> set ixs then Some (r i / thr) else env v) | _ \<Rightarrow> env v)"

text \<open>The intended total over a list of groups: the sum of \<open>S (rmsd\<^sub>i / threshold)\<close>.\<close>

definition content :: "(real \<Rightarrow> real) \<Rightarrow> real \<Rightarrow> (vec3 list \<Rightarrow> nat list \<Rightarrow> int \<Rightarrow> real)
    \<Rightarrow> vec3 list \<Rightarrow> nat list list \<Rightarrow> int \<Rightarrow> nat list \<Rightarrow> real" where
  "content S thr rho ideal_positions block_atoms numAtoms ixs =
     sum_list (map (\<lambda>i. S (rho ideal_positions (block_atoms ! i) numAtoms / thr)) ixs)"

text \<open>The closed-form group counts of the documentation: \<open>(n - 2 - d\<^sub>m\<^sub>i\<^sub>n)(n - 1 - d\<^sub>m\<^sub>i\<^sub>n)/2\<close> for
  a single sequence, and the sum of \<open>(n\<^sub>k - 2)(n\<^sub>k\<^sub>+\<^sub>1 - 2)\<close> over consecutive blocks.\<close>

definition closed_form_unblocked :: "int \<Rightarrow> bool \<Rightarrow> int" where
  "closed_form_unblocked n parallel =
     (n - 2 - min_distance parallel) * (n - 1 - min_distance parallel) div 2"

definition closed_form_blocked :: "int list \<Rightarrow> int" where
  "closed_form_blocked blockSizes =
     sum_list (map (\<lambda>k. (blockSizes ! k - 2) * (blockSizes ! (k + 1) - 2))
                 [0 ..< length blockSizes - 1])"

text \<open>The atoms of each residue group, given the five-atom lists of the residues.\<close>

definition group_atoms :: "nat list list \<Rightarrow> int list list \<Rightarrow> nat list list" where
  "group_atoms atom_lists residue_groups =
     map (\<lambda>g. concat (map (\<lambda>i. atom_lists ! nat i) g)) residue_groups"


section \<open>Example residues\<close>

text \<open>A glycine with its hydrogens, a glycine given by its heavy atoms only (as in a
  structure without hydrogens), and an alanine.\<close>

definition gly_example :: residue where
  "gly_example = \<lparr>name = ''GLY'', id_str = ''7'',
      atoms = [(''N'', 10), (''H'', 11), (''CA'', 12), (''HA2'', 13), (''HA3'', 14),
               (''C'', 15), (''O'', 16)]\<rparr>"

definition gly_heavy :: residue where
  "gly_heavy = \<lparr>name = ''GLY'', id_str = ''5'',
      atoms = [(''N'', 0), (''CA'', 1), (''C'', 2), (''O'', 3)]\<rparr>"

definition ala_example :: residue where
  "ala_example = \<lparr>name = ''ALA'', id_str = ''1'',
      atoms = [(''N'', 0), (''CA'', 1), (''CB'', 2), (''C'', 3), (''O'', 4)]\<rparr>"


section \<open>The five-atom list\<close>

lemma residue_atoms_None: "a \<notin> fst ` set (atoms r) \<Longrightarrow> residue_atoms r a = None"
  by (simp add: residue_atoms_def map_of_eq_None_iff)

lemma residue_atoms_distinct:
  "distinct (map fst (atoms r)) \<Longrightarrow> (a, ix) \<in> set (atoms r) \<Longrightarrow> residue_atoms r a = Some ix"
  by (simp add: residue_atoms_def rev_map[symmetric])

lemma map_result_first_error:
  "map_result f pre = Inr ys \<Longrightarrow> f x = Inl e \<Longrightarrow> map_result f (pre @ x # post) = Inl e"
  by (induction pre arbitrary: ys) (auto split: sum.splits)

lemma map_result_all_ok:
  "\<forall>x\<in>set xs. \<exists>y. f x = Inr y \<Longrightarrow> \<exists>ys. map_result f xs = Inr ys"
  by (induction xs) (auto split: sum.splits)



section \<open>Ranges and residue groups\<close>

lemma set_py_range: "set (py_range a b) = {i. a \<le> i \<and> i < b}"
  by (auto simp: py_range_def)

lemma length_py_range: "length (py_range a b) = nat (b - a)"
  by (simp add: py_range_def)

lemma distinct_py_range: "distinct (py_range a b)"
  by (simp add: py_range_def)

lemma set_unblocked_groups:
  "set (unblocked_groups n parallel) =
     {[i, i + 1, i + 2, j, j + 1, j + 2] | i j.
        0 \<le> i \<and> i < n - 2 - min_distance parallel \<and> i + min_distance parallel \<le> j \<and> j < n - 2}"
  by (auto simp: unblocked_groups_def set_py_range)

lemma triangle_sum:
  "2 * sum_list (map (\<lambda>i. nat (b - i)) (py_range a b)) = nat (b - a) * (nat (b - a) + 1)"
proof (induction "nat (b - a)" arbitrary: a)
  case 0
  then show ?case by (simp add: py_range_def)
next
  case (Suc k)
  then have ab: "a < b" and k: "k = nat (b - (a + 1))" by linarith+
  have "py_range a b = a # py_range (a + 1) b"
    using ab by (simp add: py_range_def upto_rec1)
  moreover have "2 * sum_list (map (\<lambda>i. nat (b - i)) (py_range (a + 1) b)) = k * (k + 1)"
    using Suc.hyps(1)[OF k] k by simp
  moreover have "nat (b - a) = Suc k" using Suc.hyps(2) by simp
  ultimately show ?case by simp
qed

lemma length_unblocked_groups:
  "2 * length (unblocked_groups n parallel)
     = nat (n - 2 - min_distance parallel) * (nat (n - 2 - min_distance parallel) + 1)"
proof -
  let ?d = "min_distance parallel"
  have "length (unblocked_groups n parallel)
          = sum_list (map (\<lambda>i. nat (n - 2 - ?d - i)) (py_range 0 (n - 2 - ?d)))"
    by (simp add: unblocked_groups_def length_concat comp_def length_py_range algebra_simps)
  then show ?thesis
    using triangle_sum [of "n - 2 - ?d" 0] by simp
qed

lemma count_unblocked_groups:
  assumes "min_distance parallel + 1 \<le> n"
  shows "int (length (unblocked_groups n parallel))
           = (n - 2 - min_distance parallel) * (n - 1 - min_distance parallel) div 2"
proof -
  define m where "m = n - 2 - min_distance parallel"
  have m1: "n - 1 - min_distance parallel = m + 1" and lower: "- 1 \<le> m"
    using assms by (simp_all add: m_def)
  have "int (2 * length (unblocked_groups n parallel)) = int (nat m * (nat m + 1))"
    using length_unblocked_groups [of n parallel] by (simp add: m_def)
  then have twice: "2 * int (length (unblocked_groups n parallel)) = int (nat m) * (int (nat m) + 1)"
    by (simp only: of_nat_mult of_nat_add of_nat_numeral of_nat_1)
  have "int (nat m) * (int (nat m) + 1) = m * (m + 1)"
  proof (cases "0 \<le> m")
    case True
    then show ?thesis by (simp add: algebra_simps)
  next
    case False
    with lower have "m = - 1" by linarith
    then show ?thesis by simp
  qed
  with twice have "2 * int (length (unblocked_groups n parallel)) = m * (m + 1)" by simp
  then have "int (length (unblocked_groups n parallel)) = m * (m + 1) div 2" by linarith
  then show ?thesis by (simp add: m1 m_def[symmetric])
qed

lemma py_range_Cons: "a < b \<Longrightarrow> py_range a b = a # py_range (a + 1) b"
  by (simp add: py_range_def upto_rec1)

lemma distinct_unblocked_groups: "distinct (unblocked_groups n parallel)"
proof -
  define d where "d = min_distance parallel"
  define g where "g = (\<lambda>i j :: int. [i, i + 1, i + 2, j, j + 1, j + 2])"
  define row where "row = (\<lambda>i. map (g i) (py_range (i + d) (n - 2)))"
  have hd_row: "hd (row i) = g i (i + d)" if "i < n - 2 - d" for i
  proof -
    from that have "i + d < n - 2" by simp
    then show ?thesis by (simp add: row_def py_range_Cons)
  qed
  have inj: "inj_on row (set (py_range 0 (n - 2 - d)))"
  proof (rule inj_onI)
    fix i i' assume "i \<in> set (py_range 0 (n - 2 - d))" "i' \<in> set (py_range 0 (n - 2 - d))"
      and eq: "row i = row i'"
    then have "i < n - 2 - d" "i' < n - 2 - d" by (simp_all add: set_py_range)
    then have "g i (i + d) = g i' (i' + d)" using hd_row eq by metis
    then show "i = i'" by (simp add: g_def)
  qed
  have rows: "distinct (row i)" for i
    by (simp add: row_def distinct_map distinct_py_range inj_on_def g_def)
  have disj: "set (row i) \<inter> set (row i') = {}" if "i \<noteq> i'" for i i'
    using that by (auto simp: row_def g_def)
  have "distinct (concat (map row (py_range 0 (n - 2 - d))))"
  proof (rule distinct_concat)
    show "distinct (map row (py_range 0 (n - 2 - d)))"
      using inj by (simp add: distinct_map distinct_py_range)
  next
    fix ys assume "ys \<in> set (map row (py_range 0 (n - 2 - d)))"
    then show "distinct ys" using rows by auto
  next
    fix ys zs assume "ys \<in> set (map row (py_range 0 (n - 2 - d)))"
      "zs \<in> set (map row (py_range 0 (n - 2 - d)))" "ys \<noteq> zs"
    then obtain i i' where "ys = row i" "zs = row i'" "i \<noteq> i'" by auto
    then show "set ys \<inter> set zs = {}" using disj by simp
  qed
  then show ?thesis by (simp add: unblocked_groups_def row_def g_def d_def)
qed

lemma wrap64_id: "- (2 ^ 63) \<le> x \<Longrightarrow> x < 2 ^ 63 \<Longrightarrow> wrap64 x = x"
  by (simp add: wrap64_def)

lemma sum_list_take_nonneg:
  assumes "\<forall>x\<in>set bs. (0::int) \<le> x"
  shows "0 \<le> sum_list (take k bs)" and "sum_list (take k bs) \<le> sum_list bs"
proof -
  show "0 \<le> sum_list (take k bs)"
    using assms by (intro sum_list_nonneg) (auto dest: in_set_takeD)
  have "sum_list bs = sum_list (take k bs) + sum_list (drop k bs)"
    by (metis append_take_drop_id sum_list.append)
  moreover have "0 \<le> sum_list (drop k bs)"
    using assms by (intro sum_list_nonneg) (auto dest: in_set_dropD)
  ultimately show "sum_list (take k bs) \<le> sum_list bs" by simp
qed

lemma cumsum_from_nth:
  assumes "\<forall>x\<in>set xs. 0 \<le> x" and "0 \<le> acc" and "acc + sum_list xs < 2 ^ 63" and "k < length xs"
  shows "cumsum_from acc xs ! k = acc + sum_list (take (Suc k) xs)"
  using assms
proof (induction xs arbitrary: acc k)
  case Nil
  then show ?case by simp
next
  case (Cons x xs)
  have rest: "0 \<le> sum_list xs" using Cons.prems(1) by (intro sum_list_nonneg) auto
  have x: "0 \<le> x" using Cons.prems(1) by simp
  have w: "wrap64 (acc + x) = acc + x"
    using Cons.prems(2,3) x rest by (intro wrap64_id) simp_all
  show ?case
  proof (cases k)
    case 0
    then show ?thesis by (simp add: w)
  next
    case (Suc k')
    have "cumsum_from (acc + x) xs ! k' = acc + x + sum_list (take (Suc k') xs)"
      using Cons.prems x Suc by (intro Cons.IH) simp_all
    then show ?thesis by (simp add: w Suc)
  qed
qed

lemma bounds_of_nth:
  assumes "\<forall>x\<in>set bs. 0 \<le> x" and "sum_list bs < 2 ^ 63" and "k \<le> length bs"
  shows "bounds_of bs ! k = sum_list (take k bs)"
proof (cases k)
  case 0
  then show ?thesis by (simp add: bounds_of_def)
next
  case (Suc k')
  then have "cumsum_from 0 bs ! k' = 0 + sum_list (take (Suc k') bs)"
    using assms by (intro cumsum_from_nth) simp_all
  then show ?thesis by (simp add: bounds_of_def Suc)
qed

lemma wrap64_take_less_2:
  assumes "\<forall>x\<in>set bs. 0 \<le> x" and "sum_list bs < 2 ^ 63"
  shows "wrap64 (sum_list (take k bs) - 2) = sum_list (take k bs) - 2"
proof -
  have "0 \<le> sum_list (take k bs)" "sum_list (take k bs) \<le> sum_list bs"
    using sum_list_take_nonneg [OF assms(1)] by simp_all
  then show ?thesis
    using assms(2) by (intro wrap64_id) simp_all
qed

lemma bounds_of_less_2:
  assumes "\<forall>x\<in>set bs. 0 \<le> x" and "sum_list bs < 2 ^ 63" and "k \<le> length bs"
  shows "wrap64 (bounds_of bs ! k - 2) = sum_list (take k bs) - 2"
  by (simp add: bounds_of_nth [OF assms] wrap64_take_less_2 [OF assms(1,2)])

lemma sum_list_take_Suc:
  "k < length bs \<Longrightarrow> sum_list (take (Suc k) bs) = sum_list (take k bs) + (bs ! k :: int)"
  by (simp add: take_Suc_conv_app_nth)

lemma set_blocked_groups:
  assumes "\<forall>x\<in>set bs. 0 \<le> x" and "sum_list bs < 2 ^ 63"
  shows "set (blocked_groups bs) =
     {[i, i + 1, i + 2, j, j + 1, j + 2] | k i j.
        k + 1 < length bs
        \<and> sum_list (take k bs) \<le> i \<and> i < sum_list (take (k + 1) bs) - 2
        \<and> sum_list (take (k + 1) bs) \<le> j \<and> j < sum_list (take (k + 2) bs) - 2}"
  (is "?L = ?R")
proof -
  have "?L = {[i, i + 1, i + 2, j, j + 1, j + 2] | k i j.
        k + 1 < length bs
        \<and> bounds_of bs ! k \<le> i \<and> i < wrap64 (bounds_of bs ! (k + 1) - 2)
        \<and> bounds_of bs ! (k + 1) \<le> j \<and> j < wrap64 (bounds_of bs ! (k + 2) - 2)}"
    apply (auto simp: blocked_groups_def Let_def set_py_range)
    subgoal for k i j by (rule exI[of _ k]) auto
    subgoal for k i j by (rule bexI[of _ k]) auto
    done
  also have "\<dots> = ?R"
  proof -
    have "bounds_of bs ! k = sum_list (take k bs) \<and> bounds_of bs ! (k + 1) = sum_list (take (k + 1) bs)
          \<and> wrap64 (bounds_of bs ! (k + 1) - 2) = sum_list (take (k + 1) bs) - 2
          \<and> wrap64 (bounds_of bs ! (k + 2) - 2) = sum_list (take (k + 2) bs) - 2"
      if "k + 1 < length bs" for k
      using that by (simp add: bounds_of_nth [OF assms] wrap64_take_less_2 [OF assms])
    then show ?thesis by (simp cong: conj_cong)
  qed
  finally show ?thesis .
qed

lemma length_pairs:
  "length (concat (map (\<lambda>i. map (g i) (py_range c e)) (py_range a b))) = nat (b - a) * nat (e - c)"
  by (simp add: length_concat comp_def length_py_range sum_list_triv)

lemma length_blocked_groups_bounds:
  "length (blocked_groups bs)
     = sum_list (map (\<lambda>k. nat (wrap64 (bounds_of bs ! (k + 1) - 2) - bounds_of bs ! k)
                          * nat (wrap64 (bounds_of bs ! (k + 2) - 2) - bounds_of bs ! (k + 1)))
                   [0 ..< length bs - 1])"
  unfolding blocked_groups_def Let_def
  by (subst length_concat) (simp add: comp_def length_pairs)

text \<open>The wrap-around at work: the sizes 5, 5, \<open>2\<^sup>6\<^sup>3 - 1\<close> and \<open>- (2\<^sup>6\<^sup>3 - 3)\<close> sum to 12, the
  third bound wraps to a negative number, and only the first pair of blocks gives
  groups.\<close>

lemma bounds_of_wraps:
  "bounds_of [5, 5, 9223372036854775807, - 9223372036854775805]
     = [0, 5, 10, - 9223372036854775799, 12]"
  by (simp add: bounds_of_def wrap64_def)

lemma blocked_groups_wraps:
  "length (blocked_groups [5, 5, 9223372036854775807, - 9223372036854775805]) = 9"
  by (simp add: length_blocked_groups_bounds bounds_of_wraps upt_rec wrap64_def)

lemma length_blocked_groups:
  assumes "\<forall>x\<in>set bs. 0 \<le> x" and "sum_list bs < 2 ^ 63"
  shows "length (blocked_groups bs)
     = sum_list (map (\<lambda>k. nat (bs ! k - 2) * nat (bs ! (k + 1) - 2)) [0 ..< length bs - 1])"
proof -
  have "length (blocked_groups bs)
          = sum_list (map (\<lambda>k. nat (wrap64 (bounds_of bs ! (k + 1) - 2) - bounds_of bs ! k)
                               * nat (wrap64 (bounds_of bs ! (k + 2) - 2) - bounds_of bs ! (k + 1)))
                        [0 ..< length bs - 1])"
    by (rule length_blocked_groups_bounds)
  also have "\<dots> = sum_list (map (\<lambda>k. nat (bs ! k - 2) * nat (bs ! (k + 1) - 2)) [0 ..< length bs - 1])"
  proof (rule arg_cong[where f = sum_list], rule map_cong[OF refl])
    fix k assume "k \<in> set [0 ..< length bs - 1]"
    then have k: "k < length bs" "Suc k < length bs" by auto
    have "wrap64 (bounds_of bs ! (k + 1) - 2) - bounds_of bs ! k = bs ! k - 2"
      using k wrap64_take_less_2 [OF assms, of "Suc k"] wrap64_take_less_2 [OF assms, of "Suc (Suc k)"]
      by (simp add: bounds_of_nth [OF assms] sum_list_take_Suc)
    moreover have "wrap64 (bounds_of bs ! (k + 2) - 2) - bounds_of bs ! (k + 1) = bs ! (k + 1) - 2"
      using k wrap64_take_less_2 [OF assms, of "Suc k"] wrap64_take_less_2 [OF assms, of "Suc (Suc k)"]
      by (simp add: bounds_of_nth [OF assms] sum_list_take_Suc)
    ultimately show "nat (wrap64 (bounds_of bs ! (k + 1) - 2) - bounds_of bs ! k)
                      * nat (wrap64 (bounds_of bs ! (k + 2) - 2) - bounds_of bs ! (k + 1))
                   = nat (bs ! k - 2) * nat (bs ! (k + 1) - 2)"
      by (simp only:)
  qed
  finally show ?thesis .
qed

lemma count_blocked_groups:
  assumes "\<forall>x\<in>set bs. 0 \<le> x" and "sum_list bs < 2 ^ 63"
  shows "int (length (blocked_groups bs))
     = sum_list (map (\<lambda>k. max 0 (bs ! k - 2) * max 0 (bs ! (k + 1) - 2)) [0 ..< length bs - 1])"
proof -
  have "int (sum_list (map f ks)) = sum_list (map (\<lambda>k. int (f k)) ks)" for f :: "nat \<Rightarrow> nat" and ks
    by (induction ks) simp_all
  then show ?thesis
    by (simp add: length_blocked_groups [OF assms] max_def)
qed

lemma count_blocked_groups_closed_form:
  assumes "\<forall>x\<in>set bs. 2 \<le> x" and "sum_list bs < 2 ^ 63"
  shows "int (length (blocked_groups bs))
     = sum_list (map (\<lambda>k. (bs ! k - 2) * (bs ! (k + 1) - 2)) [0 ..< length bs - 1])"
proof -
  have nonneg: "\<forall>x\<in>set bs. 0 \<le> x" using assms(1) by force
  show ?thesis
  unfolding count_blocked_groups [OF nonneg assms(2)]
proof (rule arg_cong[where f = sum_list], rule map_cong[OF refl])
  fix k assume "k \<in> set [0 ..< length bs - 1]"
  then have "bs ! k \<in> set bs" "bs ! (k + 1) \<in> set bs" by auto
  with assms have "2 \<le> bs ! k" "2 \<le> bs ! (k + 1)" by blast+
  then show "max 0 (bs ! k - 2) * max 0 (bs ! (k + 1) - 2) = (bs ! k - 2) * (bs ! (k + 1) - 2)"
    by simp
qed
qed



section \<open>The assembly loop\<close>

lemma ceil32_split:
  assumes "r < 32"
  shows "(32 * q + r + 31) div 32 = (if r = 0 then q else Suc q)"
proof -
  have "(32 * q + r + 31) div 32 = q + (r + 31) div 32"
    by (simp add: add.assoc)
  moreover have "(r + 31) div 32 = (if r = 0 then 0 else 1)"
  proof (cases "r = 0")
    case True
    then show ?thesis by simp
  next
    case False
    have "(r + 31) div 32 = 1"
      by (rule div_nat_eqI) (use False assms in simp_all)
    with False show ?thesis by simp
  qed
  ultimately show ?thesis by simp
qed

lemma ceil32_multiple:
  assumes "m mod 32 = 0"
  shows "m = 32 * ((m + 31) div 32)" and "(Suc m + 31) div 32 = Suc ((m + 31) div 32)"
    and "m div 32 = (m + 31) div 32"
proof -
  from assms have "32 dvd m" by (simp add: dvd_eq_mod_eq_0)
  then obtain q where q: "m = 32 * q" by (rule dvdE)
  have c: "(m + 31) div 32 = q" using ceil32_split [of 0 q] by (simp add: q)
  show "m = 32 * ((m + 31) div 32)" by (simp add: c) (rule q)
  have "(32 * q + 1 + 31) div 32 = Suc q" using ceil32_split [of 1 q] by simp
  then show "(Suc m + 31) div 32 = Suc ((m + 31) div 32)" by (simp add: c) (simp add: q)
  show "m div 32 = (m + 31) div 32" by (simp add: c) (simp add: q)
qed

lemma ceil32_inside:
  assumes "m mod 32 \<noteq> 0"
  shows "(Suc m + 31) div 32 = (m + 31) div 32"
    and "32 * ((m + 31) div 32 - 1) < m" and "m < 32 * ((m + 31) div 32)"
    and "0 < (m + 31) div 32"
proof -
  define q r where "q = m div 32" and "r = m mod 32"
  have m: "m = 32 * q + r" and r: "r < 32" "r \<noteq> 0"
    using assms by (simp_all add: q_def r_def)
  have c: "(m + 31) div 32 = Suc q" using ceil32_split [OF r(1), of q] r(2) by (simp add: m)
  have "(32 * q + Suc r + 31) div 32 = Suc q"
  proof (cases "Suc r < 32")
    case True
    then show ?thesis using ceil32_split [of "Suc r" q] by simp
  next
    case False
    with r have "Suc r = 32" by simp
    then have "32 * q + Suc r + 31 = 32 * (Suc q) + 0 + 31" by simp
    then show ?thesis using ceil32_split [of 0 "Suc q"] by (simp only:) simp
  qed
  then show "(Suc m + 31) div 32 = (m + 31) div 32" by (simp add: c) (simp add: m)
  show "32 * ((m + 31) div 32 - 1) < m" using r by (simp add: c) (simp add: m)
  show "m < 32 * ((m + 31) div 32)" using r by (simp add: c) (simp add: m)
  show "0 < (m + 31) div 32" by (simp add: c)
qed

lemma for_loop_snoc:
  "for_loop body (xs @ [x]) s = (case for_loop body xs s of Inl e \<Rightarrow> Inl e | Inr s' \<Rightarrow> body x s')"
  by (induction xs arbitrary: s) (auto split: sum.splits)

lemma loop_single:
  assumes "n \<le> 32"
  shows "for_loop (loop_body ideal ba na n) [0 ..< m] ([\<lparr>energy = e, variables = []\<rparr>], Some 0)
           = Inr ([\<lparr>energy = e, variables = map (leaf ideal ba na) [0 ..< m]\<rparr>], Some 0)"
proof (induction m)
  case 0
  then show ?case by simp
next
  case (Suc m)
  then show ?case
    using assms by (simp add: for_loop_snoc loop_body_def addCollectiveVariable_def leaf_def)
qed

lemma chunk_force_full:
  "32 * k + 32 \<le> m \<Longrightarrow> chunk_force ideal ba na n (Suc m) k = chunk_force ideal ba na n m k"
  by (simp add: chunk_force_def)

lemma loop_step_new_chunk:
  assumes n: "32 < n" and m: "m mod 32 = 0"
  shows "loop_body ideal ba na n m (chunked_store e ideal ba na n m, f)
           = Inr (chunked_store e ideal ba na n (Suc m), Some ((Suc m + 31) div 32))"
proof -
  define c where "c = (m + 31) div 32"
  have c: "m = 32 * c" and c': "(Suc m + 31) div 32 = Suc c" and cm: "m div 32 = c"
    using ceil32_multiple [OF m] unfolding c_def by simp_all
  have old: "map (chunk_force ideal ba na n (Suc m)) [0 ..< c] = map (chunk_force ideal ba na n m) [0 ..< c]"
    by (rule map_cong[OF refl]) (simp add: chunk_force_full c)
  have new: "chunk_force ideal ba na n (Suc m) c
               = \<lparr>energy = expression n m, variables = [leaf ideal ba na m]\<rparr>"
    by (simp add: chunk_force_def c)
  have len: "length (chunked_store e ideal ba na n m) = Suc c"
    by (simp add: chunked_store_def c_def)
  show ?thesis
    using n m
    apply (simp add: loop_body_def len cm c')
    apply (simp add: chunked_store_def c_def[symmetric] c' cm addCollectiveVariable_def old new
        nth_append list_update_append leaf_def)
    done
qed

lemma map_upt_update:
  "i < c \<Longrightarrow> (map f [0 ..< c])[i := v] = map (f(i := v)) [0 ..< c]"
  by (rule nth_equalityI) (simp_all add: nth_list_update)

lemma loop_step_same_chunk:
  assumes n: "32 < n" and m: "m mod 32 \<noteq> 0"
  shows "loop_body ideal ba na n m (chunked_store e ideal ba na n m, Some ((m + 31) div 32))
           = Inr (chunked_store e ideal ba na n (Suc m), Some ((Suc m + 31) div 32))"
proof -
  define c where "c = (m + 31) div 32"
  have c': "(Suc m + 31) div 32 = c" and lo: "32 * (c - 1) < m" and hi: "m < 32 * c" and c0: "0 < c"
    using ceil32_inside [OF m] unfolding c_def by simp_all
  obtain c1 where c1: "c = Suc c1" using c0 by (cases c) simp_all
  have lo1: "32 * c1 < m" and hi1: "m < 32 * c1 + 32"
    using lo hi by (simp_all add: c1)
  define w where "w = (chunk_force ideal ba na n m c1)
      \<lparr>variables := variables (chunk_force ideal ba na n m c1) @ [leaf ideal ba na m]\<rparr>"
  have upd: "((chunk_force ideal ba na n m)(c1 := w)) k = chunk_force ideal ba na n (Suc m) k"
    if "k < c" for k
  proof (cases "k = c1")
    case True
    have "min (32 * c1 + 32) m = m" "min (32 * c1 + 32) (Suc m) = Suc m" "32 * c1 \<le> m"
      using lo1 hi1 by simp_all
    then show ?thesis using True by (simp add: w_def chunk_force_def)
  next
    case False
    with that have "k < c1" by (simp add: c1)
    then have "32 * k + 32 \<le> m" using lo1 by simp
    then show ?thesis using False by (simp add: chunk_force_def)
  qed
  have chunks: "(map (chunk_force ideal ba na n m) [0 ..< c])[c1 := w]
                = map (chunk_force ideal ba na n (Suc m)) [0 ..< c]"
  proof -
    have "(map (chunk_force ideal ba na n m) [0 ..< c])[c1 := w]
            = map ((chunk_force ideal ba na n m)(c1 := w)) [0 ..< c]"
      by (rule map_upt_update) (simp add: c1)
    also have "\<dots> = map (chunk_force ideal ba na n (Suc m)) [0 ..< c]"
      by (rule map_cong[OF refl]) (rule upd, simp)
    finally show ?thesis .
  qed
  have nth: "map (chunk_force ideal ba na n m) [0 ..< c] ! c1 = chunk_force ideal ba na n m c1"
    by (simp add: c1 del: upt_Suc)
  have "loop_body ideal ba na n m (chunked_store e ideal ba na n m, Some c)
          = Inr (addCollectiveVariable c (Rmsd m) (RMSD ideal (ba ! m) na)
                   (chunked_store e ideal ba na n m), Some c)"
    using m by (simp add: loop_body_def)
  also have "addCollectiveVariable c (Rmsd m) (RMSD ideal (ba ! m) na)
                   (chunked_store e ideal ba na n m) = chunked_store e ideal ba na n (Suc m)"
    unfolding chunked_store_def c_def[symmetric] c' addCollectiveVariable_def c1
    using chunks nth unfolding c1 by (simp add: w_def leaf_def del: upt_Suc)
  finally show ?thesis by (simp only: c_def[symmetric] c')
qed

lemma loop_chunked:
  assumes "32 < n"
  shows "for_loop (loop_body ideal ba na n) [0 ..< m] ([\<lparr>energy = e, variables = []\<rparr>], None)
           = Inr (chunked_store e ideal ba na n m, if m = 0 then None else Some ((m + 31) div 32))"
proof (induction m)
  case 0
  then show ?case by (simp add: chunked_store_def)
next
  case (Suc m)
  show ?case
  proof (cases "m mod 32 = 0")
    case True
    then show ?thesis
      using Suc loop_step_new_chunk [OF assms True] by (simp add: for_loop_snoc)
  next
    case False
    then have "m \<noteq> 0" by auto
    then show ?thesis
      using Suc loop_step_same_chunk [OF assms False] by (simp add: for_loop_snoc)
  qed
qed

lemma map_result_map:
  "(\<And>x. x \<in> set xs \<Longrightarrow> f x = Inr (g x)) \<Longrightarrow> map_result f xs = Inr (map g xs)"
  by (induction xs) simp_all

lemma map_result_length: "map_result f xs = Inr ys \<Longrightarrow> length ys = length xs"
  by (induction xs arbitrary: ys) (auto split: sum.splits)

lemma list_getitem_in_range:
  "0 \<le> i \<Longrightarrow> i < int (length xs) \<Longrightarrow> list_getitem xs i = Inr (xs ! nat i)"
  by (simp add: list_getitem_def)

lemma block_atoms_of_in_range:
  assumes "\<And>b i. b \<in> set residue_blocks \<Longrightarrow> i \<in> set b \<Longrightarrow> 0 \<le> i \<and> i < int (length atom_lists)"
  shows "block_atoms_of atom_lists residue_blocks
           = Inr (map (\<lambda>b. concat (map (\<lambda>i. atom_lists ! nat i) b)) residue_blocks)"
  unfolding block_atoms_of_def
proof (rule map_result_map)
  fix b assume b: "b \<in> set residue_blocks"
  have "map_result (list_getitem atom_lists) b = Inr (map (\<lambda>i. atom_lists ! nat i) b)"
    by (rule map_result_map) (use assms b in \<open>simp add: list_getitem_in_range\<close>)
  then show "(case map_result (list_getitem atom_lists) b of Inl e \<Rightarrow> Inl e | Inr ls \<Rightarrow> Inr (concat ls))
               = Inr (concat (map (\<lambda>i. atom_lists ! nat i) b))"
    by simp
qed

lemma RMSDContent_init_ok:
  assumes "1 \<le> length residue_blocks" and "length residue_blocks \<le> 1024"
    and "map_result getAtomList residues = Inr atom_lists"
    and "block_atoms_of atom_lists residue_blocks = Inr block_atoms"
  shows "RMSDContent_init residue_blocks ideal residues numAtoms normalise
           = Inr \<lparr>num_residue_blocks = length residue_blocks,
                  forces = assembled (length residue_blocks) normalise ideal block_atoms numAtoms\<rparr>"
proof (cases "length residue_blocks \<le> 32")
  case True
  then show ?thesis
    using assms by (simp add: RMSDContent_init_def Let_def loop_single assembled_def)
next
  case False
  then have "32 < length residue_blocks" by simp
  from loop_chunked [OF this] False show ?thesis
    using assms by (simp add: RMSDContent_init_def Let_def assembled_def)
qed

lemma unblocked_groups_in_range:
  assumes "b \<in> set (unblocked_groups n parallel)" and "i \<in> set b"
  shows "0 \<le> i \<and> i < n"
  using assms by (auto simp: set_unblocked_groups min_distance_def split: if_splits)

lemma blocked_groups_in_range:
  assumes "\<forall>x\<in>set bs. 0 \<le> x" and "sum_list bs < 2 ^ 63"
    and "b \<in> set (blocked_groups bs)" and "i \<in> set b"
  shows "0 \<le> i \<and> i < sum_list bs"
proof -
  note bound = sum_list_take_nonneg [OF assms(1)]
  from assms(3) obtain k i0 j0 where b: "b = [i0, i0 + 1, i0 + 2, j0, j0 + 1, j0 + 2]"
    and i0: "sum_list (take k bs) \<le> i0" "i0 < sum_list (take (k + 1) bs) - 2"
    and j0: "sum_list (take (k + 1) bs) \<le> j0" "j0 < sum_list (take (k + 2) bs) - 2"
    unfolding set_blocked_groups [OF assms(1,2)] by blast
  have "0 \<le> i0" "i0 + 2 < sum_list bs" "0 \<le> j0" "j0 + 2 < sum_list bs"
    using i0 j0 bound(1) [of k] bound(1) [of "k + 1"] bound(2) [of "k + 1"] bound(2) [of "k + 2"]
    by linarith+
  then show ?thesis using assms(4) unfolding b by auto
qed


section \<open>Values of the assembled forces\<close>

lemma split_on_no_sep: "sep \<notin> set xs \<Longrightarrow> split_on sep xs = [xs]"
  by (induction xs) auto

lemma split_on_append_sep:
  "sep \<notin> set xs \<Longrightarrow> split_on sep (xs @ sep # rest) = xs # split_on sep rest"
  by (induction xs) auto

lemma split_on_join:
  "xss \<noteq> [] \<Longrightarrow> (\<And>xs. xs \<in> set xss \<Longrightarrow> sep \<notin> set xs) \<Longrightarrow> split_on sep (join [sep] xss) = xss"
proof (induction xss rule: induct_list012)
  case 1
  then show ?case by simp
next
  case (2 x)
  then show ?case by (simp add: split_on_no_sep)
next
  case (3 x y zs)
  then show ?case by (simp add: split_on_append_sep)
qed

lemma join_singleton_Cons: "\<exists>rest. join sep ([t] # xss) = t # rest"
  by (cases xss) auto

lemma primary_value_no_paren:
  "(\<And>rest. ts \<noteq> TLParen # rest) \<Longrightarrow> primary_value S thr env ts = sum_value S thr env ts"
  by (cases "(S, thr, env, ts)" rule: primary_value.cases) auto

lemma set_join: "set (join sep xss) \<subseteq> set sep \<union> \<Union> (set ` set xss)"
  by (induction sep xss rule: join.induct) auto

lemma those_map_Some: "those (map (\<lambda>x. Some (g x)) xs) = Some (map g xs)"
  by (induction xs) simp_all

lemma those_map_Some_cong:
  "(\<And>x. x \<in> set xs \<Longrightarrow> f x = Some (g x)) \<Longrightarrow> those (map f xs) = Some (map g xs)"
  by (induction xs) simp_all

lemma defined_env_Rmsd [simp]: "defined_env env r thr ixs (Rmsd i) = env (Rmsd i)"
  by (simp add: defined_env_def)

lemma foldr_add_definition:
  assumes "thr \<noteq> 0" and "\<And>i. i \<in> set ixs \<Longrightarrow> env (Rmsd i) = Some (r i)"
  shows "foldr (add_definition S thr) (map definition_of ixs) (Some env)
           = Some (defined_env env r thr ixs)"
  using assms(2)
proof (induction ixs)
  case Nil
  have "defined_env env r thr [] = env"
    by (rule ext) (simp add: defined_env_def split: varname.splits)
  then show ?case by simp
next
  case (Cons i ixs)
  then have IH: "foldr (add_definition S thr) (map definition_of ixs) (Some env)
                   = Some (defined_env env r thr ixs)"
    and i: "env (Rmsd i) = Some (r i)" by simp_all
  have "(defined_env env r thr ixs)(X i \<mapsto> r i / thr) = defined_env env r thr (i # ixs)"
    by (rule ext) (simp add: defined_env_def split: varname.splits)
  then show ?case
    using assms(1) i IH by (simp add: definition_of_def[abs_def])
qed

lemma sum_value_steps:
  assumes "ixs \<noteq> []" and "\<And>i. i \<in> set ixs \<Longrightarrow> env (X i) = Some (x i)"
  shows "sum_value S thr env (join [TPlus] (map (\<lambda>i. [TStep i]) ixs))
           = Some (sum_list (map (\<lambda>i. S (x i)) ixs))"
proof -
  have "split_on TPlus (join [TPlus] (map (\<lambda>i. [TStep i]) ixs)) = map (\<lambda>i. [TStep i]) ixs"
    using assms(1) by (intro split_on_join) auto
  moreover have "those (map (term_value S thr env) (map (\<lambda>i. [TStep i]) ixs))
                   = Some (map (\<lambda>i. S (x i)) ixs)"
    unfolding map_map by (rule those_map_Some_cong) (simp add: assms(2))
  ultimately show ?thesis by (simp add: sum_value_def)
qed

lemma sum_value_vars:
  assumes "ks \<noteq> []" and "\<And>k. k \<in> set ks \<Longrightarrow> env (name_of k) = Some (x k)"
  shows "sum_value S thr env (join [TPlus] (map (\<lambda>k. [TVar (name_of k)]) ks))
           = Some (sum_list (map x ks))"
proof -
  have "split_on TPlus (join [TPlus] (map (\<lambda>k. [TVar (name_of k)]) ks)) = map (\<lambda>k. [TVar (name_of k)]) ks"
    using assms(1) by (intro split_on_join) auto
  moreover have "those (map (term_value S thr env) (map (\<lambda>k. [TVar (name_of k)]) ks))
                   = Some (map x ks)"
    unfolding map_map by (rule those_map_Some_cong) (simp add: assms(2))
  ultimately show ?thesis by (simp add: sum_value_def)
qed

lemma expression_eq: "expression n start = expression_over [start ..< min (start + 32) n]"
  by (simp add: expression_def expression_over_def summands_def definitions_def definition_of_def[abs_def])

lemma split_expression_over:
  "split_on TSemi (expression_over ixs)
     = join [TPlus] (map (\<lambda>i. [TStep i]) ixs) # map definition_of ixs"
  unfolding expression_over_def
proof (rule split_on_join)
  fix xs assume "xs \<in> set (join [TPlus] (map (\<lambda>i. [TStep i]) ixs) # map definition_of ixs)"
  then consider "xs = join [TPlus] (map (\<lambda>i. [TStep i]) ixs)" | "xs \<in> set (map definition_of ixs)"
    by auto
  then show "TSemi \<notin> set xs"
  proof cases
    case 1
    then show ?thesis using set_join [of "[TPlus]" "map (\<lambda>i. [TStep i]) ixs"] by auto
  next
    case 2
    then show ?thesis by (auto simp: definition_of_def)
  qed
qed simp

lemma energy_value_expression_over:
  assumes "thr \<noteq> 0" and "ixs \<noteq> []" and "\<And>i. i \<in> set ixs \<Longrightarrow> env (Rmsd i) = Some (r i)"
  shows "energy_value S thr env (expression_over ixs)
           = Some (sum_list (map (\<lambda>i. S (r i / thr)) ixs))"
proof -
  have "sum_value S thr (defined_env env r thr ixs) (join [TPlus] (map (\<lambda>i. [TStep i]) ixs))
          = Some (sum_list (map (\<lambda>i. S (r i / thr)) ixs))"
    by (rule sum_value_steps[OF assms(2)]) (simp add: defined_env_def)
  moreover have "primary_value S thr env' (join [TPlus] (map (\<lambda>i. [TStep i]) ixs))
          = sum_value S thr env' (join [TPlus] (map (\<lambda>i. [TStep i]) ixs))" for env'
  proof (rule primary_value_no_paren)
    fix rest
    obtain i ixs' where "ixs = i # ixs'" using assms(2) by (cases ixs) auto
    then obtain rest' where "join [TPlus] (map (\<lambda>i. [TStep i]) ixs) = TStep i # rest'"
      using join_singleton_Cons [of "[TPlus]" "TStep i" "map (\<lambda>i. [TStep i]) ixs'"] by auto
    then show "join [TPlus] (map (\<lambda>i. [TStep i]) ixs) \<noteq> TLParen # rest" by simp
  qed
  moreover have "foldr (add_definition S thr) (map definition_of ixs) (Some env)
                   = Some (defined_env env r thr ixs)"
    by (rule foldr_add_definition[OF assms(1)]) (rule assms(3))
  ultimately show ?thesis
    by (simp add: energy_value_def split_expression_over)
qed

lemma map_of_map_inj:
  "inj k \<Longrightarrow> i \<in> set xs \<Longrightarrow> map_of (map (\<lambda>i. (k i, v i)) xs) (k i) = Some (v i)"
  by (induction xs) (auto dest: injD)

lemma map_of_leaves:
  "i \<in> set ixs \<Longrightarrow> map_of (map (leaf ideal ba na) ixs) (Rmsd i) = Some (RMSD ideal (ba ! i) na)"
  unfolding leaf_def[abs_def] by (rule map_of_map_inj) (simp_all add: inj_def)

lemma map_of_chunks:
  "k \<in> set ks \<Longrightarrow> map_of (map (\<lambda>k. (Chunk k, CVForce (Suc k))) ks) (Chunk k) = Some (CVForce (Suc k))"
  by (rule map_of_map_inj) (simp_all add: inj_def)

lemma force_value_leaves:
  assumes "thr \<noteq> 0" and "ixs \<noteq> []" and "a < length h"
    and "energy (h ! a) = expression_over ixs"
    and "variables (h ! a) = map (leaf ideal ba na) ixs"
  shows "force_value S thr rho h (Suc fuel) a = Some (content S thr rho ideal ba na ixs)"
proof -
  have "energy_value S thr
          (\<lambda>v. case map_of (map (leaf ideal ba na) ixs) v of
                 None \<Rightarrow> None
               | Some (RMSD ps ats n) \<Rightarrow> Some (rho ps ats n)
               | Some (CVForce b) \<Rightarrow> force_value S thr rho h fuel b)
          (expression_over ixs)
        = Some (sum_list (map (\<lambda>i. S (rho ideal (ba ! i) na / thr)) ixs))"
    by (rule energy_value_expression_over[OF assms(1,2)]) (simp add: map_of_leaves)
  then show ?thesis using assms(3-5) by (simp add: content_def)
qed

lemma energy_value_sum_of_vars:
  assumes "ks \<noteq> []" and "\<And>k. k \<in> set ks \<Longrightarrow> env (name_of k) = Some (x k)"
  shows "energy_value S thr env (join [TPlus] (map (\<lambda>k. [TVar (name_of k)]) ks))
           = Some (sum_list (map x ks))"
proof -
  let ?ts = "join [TPlus] (map (\<lambda>k. [TVar (name_of k)]) ks)"
  have "TSemi \<notin> set ?ts"
    using set_join [of "[TPlus]" "map (\<lambda>k. [TVar (name_of k)]) ks"] by auto
  then have sp: "split_on TSemi ?ts = [?ts]" by (rule split_on_no_sep)
  have "primary_value S thr env ?ts = sum_value S thr env ?ts"
  proof (rule primary_value_no_paren)
    fix rest
    obtain k ks' where "ks = k # ks'" using assms(1) by (cases ks) auto
    then obtain rest' where "?ts = TVar (name_of k) # rest'"
      using join_singleton_Cons [of "[TPlus]" "TVar (name_of k)" "map (\<lambda>k. [TVar (name_of k)]) ks'"] by auto
    then show "?ts \<noteq> TLParen # rest" by simp
  qed
  moreover have "sum_value S thr env ?ts = Some (sum_list (map x ks))"
    using assms by (intro sum_value_vars[where name_of = name_of and x = x]) auto
  ultimately show ?thesis
    by (simp add: energy_value_def sp)
qed

lemma energy_value_normalised_sum_of_vars:
  assumes "ks \<noteq> []" and "\<And>k. k \<in> set ks \<Longrightarrow> env (name_of k) = Some (x k)" and "n \<noteq> 0"
  shows "energy_value S thr env
           ([TLParen] @ join [TPlus] (map (\<lambda>k. [TVar (name_of k)]) ks) @ [TRParen, TSlash, TNum n])
           = Some (sum_list (map x ks) / real n)"
proof -
  let ?ts = "join [TPlus] (map (\<lambda>k. [TVar (name_of k)]) ks)"
  have "TSemi \<notin> set ([TLParen] @ ?ts @ [TRParen, TSlash, TNum n])"
    using set_join [of "[TPlus]" "map (\<lambda>k. [TVar (name_of k)]) ks"] by auto
  then have "split_on TSemi ([TLParen] @ ?ts @ [TRParen, TSlash, TNum n])
                      = [[TLParen] @ ?ts @ [TRParen, TSlash, TNum n]]"
    by (rule split_on_no_sep)
  then have sp: "split_on TSemi (TLParen # ?ts @ [TRParen, TSlash, TNum n])
                      = [TLParen # ?ts @ [TRParen, TSlash, TNum n]]"
    by (simp only: append_Cons append_Nil)
  have "sum_value S thr env ?ts = Some (sum_list (map x ks))"
    using assms(1,2) by (intro sum_value_vars[where name_of = name_of and x = x]) auto
  then show ?thesis
    using assms(3) by (simp add: energy_value_def sp del: split_on.simps)
qed

lemma concat_chunks:
  "concat (map (\<lambda>k. [32 * k ..< min (32 * k + 32) n]) [0 ..< c]) = [0 ..< min (32 * c) n]"
proof (induction c)
  case 0
  then show ?case by simp
next
  case (Suc c)
  have "[0 ..< min (32 * c) n] @ [32 * c ..< min (32 * c + 32) n] = [0 ..< min (32 * Suc c) n]"
  proof (cases "n \<le> 32 * c")
    case True
    then show ?thesis by (simp add: min_def)
  next
    case False
    then have "min (32 * c) n = 32 * c" "32 * c \<le> min (32 * c + 32) n" by simp_all
    then show ?thesis
      by (metis add.commute le_Suc_ex mult_Suc_right upt_add_eq_append zero_le)
  qed
  with Suc show ?case by simp
qed

lemma content_chunks:
  assumes "n \<le> 32 * c"
  shows "sum_list (map (\<lambda>k. content S thr rho ideal ba na [32 * k ..< min (32 * k + 32) n]) [0 ..< c])
           = content S thr rho ideal ba na [0 ..< n]"
proof -
  have "content S thr rho ideal ba na (concat xss)
          = sum_list (map (content S thr rho ideal ba na) xss)" for xss
    by (induction xss) (simp_all add: content_def)
  from this [of "map (\<lambda>k. [32 * k ..< min (32 * k + 32) n]) [0 ..< c]"]
  have "content S thr rho ideal ba na [0 ..< min (32 * c) n]
          = sum_list (map (\<lambda>k. content S thr rho ideal ba na [32 * k ..< min (32 * k + 32) n]) [0 ..< c])"
    by (simp only: concat_chunks map_map comp_def)
  moreover have "min (32 * c) n = n" using assms by simp
  ultimately show ?thesis by simp
qed

lemma chunk_index_bound: "k < (n + 31) div 32 \<longleftrightarrow> 32 * k < (n::nat)"
proof -
  have "Suc k \<le> (n + 31) div 32 \<longleftrightarrow> Suc k * 32 \<le> n + 31"
    by (rule less_eq_div_iff_mult_less_eq) simp
  then show ?thesis by auto
qed

lemma chunks_cover: "(n::nat) \<le> 32 * ((n + 31) div 32)"
  using chunk_index_bound [of "(n + 31) div 32" n] by simp


lemma RMSDContent_init_Inr:
  assumes "RMSDContent_init residue_blocks ideal residues numAtoms normalise = Inr self"
  shows "num_residue_blocks self = length residue_blocks"
    and "1 \<le> length residue_blocks" and "length residue_blocks \<le> 1024"
  using assms by (auto simp: RMSDContent_init_def Let_def split: if_splits sum.splits)



lemma value_chunk:
  assumes "thr \<noteq> 0" and "k < (n + 31) div 32"
  shows "force_value S thr rho (chunked_store e ideal ba na n n) (Suc fuel) (Suc k)
           = Some (content S thr rho ideal ba na [32 * k ..< min (32 * k + 32) n])"
proof (rule force_value_leaves[OF assms(1)])
  have "32 * k < n" using assms(2) chunk_index_bound [of k n] by blast
  then show "[32 * k ..< min (32 * k + 32) n] \<noteq> []" by simp
  show "Suc k < length (chunked_store e ideal ba na n n)"
    using assms(2) by (simp add: chunked_store_def)
  have nth: "chunked_store e ideal ba na n n ! Suc k = chunk_force ideal ba na n n k"
    using assms(2) by (simp add: chunked_store_def)
  show "energy (chunked_store e ideal ba na n n ! Suc k)
          = expression_over [32 * k ..< min (32 * k + 32) n]"
    by (simp add: nth chunk_force_def expression_eq)
  show "variables (chunked_store e ideal ba na n n ! Suc k)
          = map (leaf ideal ba na) [32 * k ..< min (32 * k + 32) n]"
    by (simp add: nth chunk_force_def)
qed

lemma value_chunked:
  assumes "thr \<noteq> 0" and "32 < n"
  shows "force_value S thr rho (assembled n normalise ideal ba na) (Suc (Suc fuel)) 0
           = Some (if normalise then content S thr rho ideal ba na [0 ..< n] / real n
                   else content S thr rho ideal ba na [0 ..< n])"
proof -
  define c where "c = (n + 31) div 32"
  define h where "h = chunked_store (top_expression n normalise) ideal ba na n n"
  define env where "env = (\<lambda>v. case map_of (variables (h ! 0)) v of
                 None \<Rightarrow> None
               | Some (RMSD ps ats m) \<Rightarrow> Some (rho ps ats m)
               | Some (CVForce b) \<Rightarrow> force_value S thr rho h (Suc fuel) b)"
  have c0: "[0 ..< c] \<noteq> []"
    using assms(2) chunk_index_bound [of 0 n] by (simp add: c_def)
  have env: "env (Chunk k) = Some (content S thr rho ideal ba na [32 * k ..< min (32 * k + 32) n])"
    if "k \<in> set [0 ..< c]" for k
  proof -
    have "map_of (variables (h ! 0)) (Chunk k) = Some (CVForce (Suc k))"
      using that by (simp add: h_def chunked_store_def c_def[symmetric] map_of_chunks)
    moreover have "force_value S thr rho h (Suc fuel) (Suc k)
                     = Some (content S thr rho ideal ba na [32 * k ..< min (32 * k + 32) n])"
      unfolding h_def by (rule value_chunk[OF assms(1)]) (use that in \<open>simp add: c_def\<close>)
    ultimately show ?thesis by (simp add: env_def)
  qed
  have total: "sum_list (map (\<lambda>k. content S thr rho ideal ba na [32 * k ..< min (32 * k + 32) n]) [0 ..< c])
                 = content S thr rho ideal ba na [0 ..< n]"
    unfolding c_def by (rule content_chunks) (rule chunks_cover)
  have summ: "summation n = join [TPlus] (map (\<lambda>k. [TVar (Chunk k)]) [0 ..< c])"
    using assms(2) by (simp add: summation_def c_def)
  have "energy_value S thr env (top_expression n normalise)
          = Some (if normalise then content S thr rho ideal ba na [0 ..< n] / real n
                  else content S thr rho ideal ba na [0 ..< n])"
  proof (cases normalise)
    case True
    have "energy_value S thr env
            ([TLParen] @ join [TPlus] (map (\<lambda>k. [TVar (Chunk k)]) [0 ..< c]) @ [TRParen, TSlash, TNum n])
          = Some (sum_list (map (\<lambda>k. content S thr rho ideal ba na [32 * k ..< min (32 * k + 32) n]) [0 ..< c]) / real n)"
      by (rule energy_value_normalised_sum_of_vars[OF c0]) (use env assms(2) in auto)
    then show ?thesis using True by (simp add: top_expression_def summ total)
  next
    case False
    have "energy_value S thr env (join [TPlus] (map (\<lambda>k. [TVar (Chunk k)]) [0 ..< c]))
          = Some (sum_list (map (\<lambda>k. content S thr rho ideal ba na [32 * k ..< min (32 * k + 32) n]) [0 ..< c]))"
      by (rule energy_value_sum_of_vars[OF c0]) (use env in auto)
    then show ?thesis using False by (simp add: top_expression_def summ total)
  qed
  moreover have "energy (h ! 0) = top_expression n normalise" "0 < length h"
    by (simp_all add: h_def chunked_store_def)
  moreover have "assembled n normalise ideal ba na = h"
    using assms(2) by (simp add: assembled_def h_def)
  ultimately show ?thesis by (simp add: env_def)
qed


section \<open>The claims about the five-atom list\<close>

text \<open>
  \<^bold>\<open>C8.\<close> A residue named GLY whose atoms include HA2, N, CA, C and O gets its
  five-atom list, with the index of HA2 in the place of CB (the third place). The
  indices are those the dictionary of the residue's atoms holds; whether the residue
  has an atom named CB of its own plays no part, so the statement covers in particular
  every glycine that lacks one.
\<close>

theorem glycine_HA2_substitutes_CB:
  assumes "name r = ''GLY''"
    and "residue_atoms r ''HA2'' = Some h"
    and "residue_atoms r ''N'' = Some n"
    and "residue_atoms r ''CA'' = Some ca"
    and "residue_atoms r ''C'' = Some c"
    and "residue_atoms r ''O'' = Some ob"
  shows "getAtomList r = Inr [n, ca, h, c, ob]"
  using assms by (simp add: getAtomList_def)

theorem glycine_HA2_substitutes_CB_witness:
  "name gly_example = ''GLY'' \<and> ''CB'' \<notin> fst ` set (atoms gly_example)
   \<and> getAtomList gly_example = Inr [10, 12, 13, 15, 16]"
  using glycine_HA2_substitutes_CB [of gly_example 13 10 12 15 16]
  by (simp add: gly_example_def residue_atoms_def)

text \<open>
  \<^bold>\<open>C10.\<close> A residue named GLY with no atom named HA2 makes \<^verbatim>\<open>_getAtomList\<close> raise
  the bare \<^verbatim>\<open>KeyError\<close> on HA2, which is not the descriptive \<^verbatim>\<open>ValueError\<close> for any
  atom name; and a construction whose count check passes and whose earlier residues
  have their atom lists ends with that same \<^verbatim>\<open>KeyError\<close>.
\<close>

theorem glycine_without_HA2_raises_KeyError:
  assumes "name r = ''GLY''" and "''HA2'' \<notin> fst ` set (atoms r)"
  shows "getAtomList r = Inl (KeyError ''HA2'')
    \<and> (\<forall>atom. getAtomList r \<noteq> Inl (ValueError (atom_not_found atom r)))
    \<and> (\<forall>blocks ideal pre post numAtoms normalise.
          1 \<le> length blocks \<and> length blocks \<le> 1024 \<and> (\<forall>p\<in>set pre. \<exists>l. getAtomList p = Inr l)
          \<longrightarrow> RMSDContent_init blocks ideal (pre @ r # post) numAtoms normalise
                = Inl (KeyError ''HA2''))"
proof -
  have key: "getAtomList r = Inl (KeyError ''HA2'')"
    using assms by (simp add: getAtomList_def residue_atoms_None)
  have "map_result getAtomList (pre @ r # post) = Inl (KeyError ''HA2'')"
    if "\<forall>p\<in>set pre. \<exists>l. getAtomList p = Inr l" for pre post
  proof -
    from that obtain ys where "map_result getAtomList pre = Inr ys"
      using map_result_all_ok by blast
    then show ?thesis using key by (rule map_result_first_error)
  qed
  then show ?thesis
    using key by (simp add: RMSDContent_init_def)
qed

theorem glycine_without_HA2_raises_KeyError_witness:
  "name gly_heavy = ''GLY'' \<and> ''HA2'' \<notin> fst ` set (atoms gly_heavy)
   \<and> getAtomList gly_heavy = Inl (KeyError ''HA2'')
   \<and> RMSDContent_init [[0]] [] [ala_example, gly_heavy] 9 False = Inl (KeyError ''HA2'')"
proof -
  have g: "name gly_heavy = ''GLY''" and a: "''HA2'' \<notin> fst ` set (atoms gly_heavy)"
    by (simp_all add: gly_heavy_def)
  have ok: "\<forall>p\<in>set [ala_example]. \<exists>l. getAtomList p = Inr l"
    by (simp add: getAtomList_def ala_example_def residue_atoms_def)
  from glycine_without_HA2_raises_KeyError [OF g a] ok
  have "RMSDContent_init [[0]] [] ([ala_example] @ gly_heavy # []) 9 False
          = Inl (KeyError ''HA2'')"
    by (simp del: append.simps)
  with glycine_without_HA2_raises_KeyError [OF g a] g a show ?thesis by simp
qed

text \<open>
  For comparison, the descriptive error: in a residue that is not named GLY, the first
  of N, CA, CB, C, O that the residue lacks is named in the \<^verbatim>\<open>ValueError\<close>, together
  with the residue's name and id.
\<close>

lemma first_missing_atom_error:
  assumes "\<forall>a \<in> set found. \<exists>ix. d a = Some ix" and "d missing = None"
  shows "atom_loop r d (found @ missing # rest) acc = Inl (ValueError (atom_not_found missing r))"
  using assms by (induction found arbitrary: acc) auto

lemma descriptive_error_for_missing_atom:
  assumes "name r \<noteq> ''GLY''"
    and "[''N'', ''CA'', ''CB'', ''C'', ''O''] = found @ missing # rest"
    and "\<forall>a \<in> set found. \<exists>ix. residue_atoms r a = Some ix"
    and "residue_atoms r missing = None"
  shows "getAtomList r
           = Inl (ValueError (''Atom '' @ missing @ '' not found in residue '' @ name r @ id_str r))"
proof -
  have "getAtomList r = atom_loop r (residue_atoms r) [''N'', ''CA'', ''CB'', ''C'', ''O''] []"
    using assms(1) by (simp add: getAtomList_def Let_def del: atom_loop.simps)
  also have "\<dots> = atom_loop r (residue_atoms r) (found @ missing # rest) []"
    by (simp only: assms(2))
  also have "\<dots> = Inl (ValueError (atom_not_found missing r))"
    using assms(3,4) by (rule first_missing_atom_error)
  finally show ?thesis by (simp add: atom_not_found_def)
qed

text \<open>
  \<^bold>\<open>C7.\<close> The descriptive error is not what every residue with a missing atom gets.
  The glycine below has N, CA, C and O but no hydrogens: its CB cannot be located,
  since the HA2 that would stand for it is absent. \<^verbatim>\<open>_getAtomList\<close> raises
  \<^verbatim>\<open>KeyError('HA2')\<close>, not the \<^verbatim>\<open>ValueError\<close> whose message names the atom and the
  residue, and so does the construction over that residue.
\<close>

theorem missing_atom_in_glycine_bare_KeyError:
  "getAtomList gly_heavy = Inl (KeyError ''HA2'')
   \<and> getAtomList gly_heavy \<noteq> Inl (ValueError (atom_not_found ''CB'' gly_heavy))
   \<and> RMSDContent_init [[0]] [] [gly_heavy] 4 False = Inl (KeyError ''HA2'')"
  by (simp add: RMSDContent_init_def getAtomList_def gly_heavy_def residue_atoms_def)


section \<open>The claim about the count check\<close>

lemma str_nat_starts_with_digit: "\<exists>c cs. str_nat n = c # cs \<and> c \<in> set ''0123456789''"
proof (induction n rule: str_nat.induct)
  case (1 n)
  show ?case
  proof (cases "n < 10")
    case True
    then have "''0123456789'' ! n \<in> set ''0123456789''" by (intro nth_mem) simp
    then show ?thesis using True by (subst str_nat.simps) simp
  next
    case False
    with 1 obtain c cs where "str_nat (n div 10) = c # cs" "c \<in> set ''0123456789''" by blast
    then show ?thesis using False by (subst str_nat.simps) simp
  qed
qed

lemma not_between_neq_atom_not_found: "not_between m n \<noteq> atom_not_found a r"
proof -
  obtain c cs where "str_nat m = c # cs" "c \<in> set ''0123456789''"
    using str_nat_starts_with_digit by blast
  then show ?thesis by (auto simp: not_between_def atom_not_found_def)
qed

lemma atom_loop_error:
  "atom_loop r d names acc = Inl e \<Longrightarrow> \<exists>a. e = ValueError (atom_not_found a r)"
  by (induction names arbitrary: acc) (auto split: option.splits)

lemma getAtomList_error:
  "getAtomList r = Inl e \<Longrightarrow> e = KeyError ''HA2'' \<or> (\<exists>a. e = ValueError (atom_not_found a r))"
  unfolding getAtomList_def Let_def
  by (auto split: if_splits option.splits dest: atom_loop_error)

lemma map_result_error: "map_result f xs = Inl e \<Longrightarrow> \<exists>x\<in>set xs. f x = Inl e"
  by (induction xs) (auto split: sum.splits)

lemma block_atoms_of_error: "block_atoms_of atom_lists residue_blocks = Inl e \<Longrightarrow> e = IndexError"
proof -
  assume "block_atoms_of atom_lists residue_blocks = Inl e"
  then obtain b where "(case map_result (list_getitem atom_lists) b of
                          Inl e \<Rightarrow> Inl e | Inr ls \<Rightarrow> Inr (concat ls)) = Inl e"
    unfolding block_atoms_of_def by (blast dest: map_result_error)
  then have "map_result (list_getitem atom_lists) b = Inl e" by (simp split: sum.splits)
  then obtain i where "list_getitem atom_lists i = Inl e" by (blast dest: map_result_error)
  then show ?thesis by (simp add: list_getitem_def Let_def split: if_splits)
qed

lemma loop_never_raises:
  "\<exists>s. for_loop (loop_body ideal ba na n) [0 ..< n]
         ([\<lparr>energy = e, variables = []\<rparr>], if n \<le> 32 then Some 0 else None) = Inr s"
proof (cases "n \<le> 32")
  case True
  then show ?thesis by (simp add: loop_single)
next
  case False
  then have "32 < n" by simp
  from loop_chunked [OF this] False show ?thesis by simp
qed

text \<open>
  \<^bold>\<open>C6.\<close> The construction ends with the configuration error of the count check (the
  \<^verbatim>\<open>ValueError\<close> whose message gives the numbers of residues and of blocks) exactly
  when the number of residue groups is not between 1 and 1024. For a count in that
  range the check passes, and whatever the rest of the construction does, it does not
  end with that error.
\<close>

theorem count_check_iff:
  "RMSDContent_init residue_blocks ideal_positions residues numAtoms normalise
     = Inl (ValueError (not_between (length residues) (length residue_blocks)))
   \<longleftrightarrow> \<not> (1 \<le> length residue_blocks \<and> length residue_blocks \<le> 1024)"
proof
  assume "\<not> (1 \<le> length residue_blocks \<and> length residue_blocks \<le> 1024)"
  then show "RMSDContent_init residue_blocks ideal_positions residues numAtoms normalise
     = Inl (ValueError (not_between (length residues) (length residue_blocks)))"
    by (simp add: RMSDContent_init_def Let_def)
next
  assume err: "RMSDContent_init residue_blocks ideal_positions residues numAtoms normalise
     = Inl (ValueError (not_between (length residues) (length residue_blocks)))"
  show "\<not> (1 \<le> length residue_blocks \<and> length residue_blocks \<le> 1024)"
  proof
    assume ok: "1 \<le> length residue_blocks \<and> length residue_blocks \<le> 1024"
    show False
    proof (cases "map_result getAtomList residues")
      case (Inl e)
      then obtain r where "getAtomList r = Inl e" by (blast dest: map_result_error)
      then have "e \<noteq> ValueError (not_between (length residues) (length residue_blocks))"
        using not_between_neq_atom_not_found by (auto dest!: getAtomList_error)
      then show False using err ok Inl by (simp add: RMSDContent_init_def Let_def)
    next
      case atoms: (Inr atom_lists)
      show False
      proof (cases "block_atoms_of atom_lists residue_blocks")
        case (Inl e)
        then have "e = IndexError" by (rule block_atoms_of_error)
        then show False using err ok atoms Inl by (simp add: RMSDContent_init_def Let_def)
      next
        case (Inr block_atoms)
        from RMSDContent_init_ok [OF _ _ atoms Inr, of ideal_positions numAtoms normalise] ok err
        show False by simp
      qed
    qed
  qed
qed

theorem count_check_iff_witness:
  "RMSDContent_init [] [] [ala_example] 5 False
     = Inl (ValueError ''1 residues yield 0 blocks, which is not between 1 and 1024'')
   \<and> RMSDContent_init [[0]] [] [ala_example] 5 False
     \<noteq> Inl (ValueError (not_between 1 1))"
proof -
  have "not_between 1 0 = ''1 residues yield 0 blocks, which is not between 1 and 1024''"
    by (simp add: not_between_def str_nat.simps)
  then show ?thesis
    using count_check_iff [of "[]" "[]" "[ala_example]" 5 False]
      count_check_iff [of "[[0]]" "[]" "[ala_example]" 5 False]
    by simp
qed


section \<open>The claims about the residue groups\<close>

lemma SheetRMSDContent_init_unblocked_ok:
  assumes atoms: "map_result getAtomList residues = Inr atom_lists"
    and lo: "1 \<le> length (unblocked_groups (int (length residues)) parallel)"
    and hi: "length (unblocked_groups (int (length residues)) parallel) \<le> 1024"
  shows "SheetRMSDContent_init pb ab residues numAtoms parallel None normalise
           = Inr \<lparr>num_residue_blocks = length (unblocked_groups (int (length residues)) parallel),
                  forces = assembled (length (unblocked_groups (int (length residues)) parallel))
                             normalise (if parallel then pb else ab)
                             (group_atoms atom_lists (unblocked_groups (int (length residues)) parallel))
                             numAtoms\<rparr>"
proof -
  have len: "length atom_lists = length residues"
    using atoms by (rule map_result_length)
  have "block_atoms_of atom_lists (unblocked_groups (int (length residues)) parallel)
          = Inr (group_atoms atom_lists (unblocked_groups (int (length residues)) parallel))"
    unfolding group_atoms_def
    by (rule block_atoms_of_in_range) (use unblocked_groups_in_range len in auto)
  from RMSDContent_init_ok [OF lo hi atoms this] show ?thesis
    by (simp add: SheetRMSDContent_init_def)
qed

lemma SheetRMSDContent_init_blocked_ok:
  assumes atoms: "map_result getAtomList residues = Inr atom_lists"
    and total: "sum_list bs = int (length residues)"
    and nonneg: "\<forall>x\<in>set bs. 0 \<le> x"
    and fits: "sum_list bs < 2 ^ 63"
    and lo: "1 \<le> length (blocked_groups bs)"
    and hi: "length (blocked_groups bs) \<le> 1024"
  shows "SheetRMSDContent_init pb ab residues numAtoms parallel (Some bs) normalise
           = Inr \<lparr>num_residue_blocks = length (blocked_groups bs),
                  forces = assembled (length (blocked_groups bs))
                             normalise (if parallel then pb else ab)
                             (group_atoms atom_lists (blocked_groups bs)) numAtoms\<rparr>"
proof -
  have len: "length atom_lists = length residues"
    using atoms by (rule map_result_length)
  have "block_atoms_of atom_lists (blocked_groups bs) = Inr (group_atoms atom_lists (blocked_groups bs))"
    unfolding group_atoms_def
    by (rule block_atoms_of_in_range) (use blocked_groups_in_range [OF nonneg fits] len total in auto)
  from RMSDContent_init_ok [OF lo hi atoms this] show ?thesis
    using total by (simp add: SheetRMSDContent_init_def)
qed

lemma map_result_replicate: "f x = Inr y \<Longrightarrow> map_result f (replicate n x) = Inr (replicate n y)"
  by (induction n) simp_all

lemma getAtomList_ala_example: "getAtomList ala_example = Inr [0, 1, 2, 3, 4]"
  by (simp add: getAtomList_def ala_example_def residue_atoms_def)

text \<open>
  \<^bold>\<open>C1.\<close> Without block sizes, over \<open>n\<close> residues and with \<open>d\<^sub>m\<^sub>i\<^sub>n\<close> equal to 6 for
  parallel and 5 for antiparallel sheets, the groups enumerated are exactly the lists
  \<open>[i, i+1, i+2, j, j+1, j+2]\<close> (as sets, \<open>{i, i+1, i+2, j, j+1, j+2}\<close>) with
  \<open>0 \<le> i < n - 2 - d\<^sub>m\<^sub>i\<^sub>n\<close> and \<open>i + d\<^sub>m\<^sub>i\<^sub>n \<le> j < n - 2\<close>, each once. Their number is
  \<open>(n - 2 - d\<^sub>m\<^sub>i\<^sub>n)(n - 1 - d\<^sub>m\<^sub>i\<^sub>n)/2\<close> whenever \<open>n > d\<^sub>m\<^sub>i\<^sub>n\<close>, and that is the group count of
  every construction that succeeds (a sequence too short to give a group fails the
  count check).
\<close>

theorem unblocked_groups_exact:
  "min_distance parallel = (if parallel then 6 else 5)
   \<and> set (unblocked_groups (int (length residues)) parallel)
       = {[i, i + 1, i + 2, j, j + 1, j + 2] | i j.
            0 \<le> i \<and> i < int (length residues) - 2 - min_distance parallel
            \<and> i + min_distance parallel \<le> j \<and> j < int (length residues) - 2}
   \<and> set ` set (unblocked_groups (int (length residues)) parallel)
       = {{i, i + 1, i + 2, j, j + 1, j + 2} | i j.
            0 \<le> i \<and> i < int (length residues) - 2 - min_distance parallel
            \<and> i + min_distance parallel \<le> j \<and> j < int (length residues) - 2}
   \<and> distinct (unblocked_groups (int (length residues)) parallel)
   \<and> (min_distance parallel + 1 \<le> int (length residues) \<longrightarrow>
        int (length (unblocked_groups (int (length residues)) parallel))
          = closed_form_unblocked (int (length residues)) parallel)
   \<and> (SheetRMSDContent_init pb ab residues numAtoms parallel None normalise = Inr self \<longrightarrow>
        getNumResidueBlocks self = length (unblocked_groups (int (length residues)) parallel)
        \<and> int (getNumResidueBlocks self) = closed_form_unblocked (int (length residues)) parallel)"
proof -
  let ?n = "int (length residues)" and ?d = "min_distance parallel"
  let ?groups = "unblocked_groups ?n parallel"
  have sets: "set ` set ?groups = {{i, i + 1, i + 2, j, j + 1, j + 2} | i j.
            0 \<le> i \<and> i < ?n - 2 - ?d \<and> i + ?d \<le> j \<and> j < ?n - 2}"
  proof -
    have "set ` {g i j | i j. P i j} = {set (g i j) | i j. P i j}"
      for g :: "int \<Rightarrow> int \<Rightarrow> int list" and P
      by blast
    from this [of "\<lambda>i j. [i, i + 1, i + 2, j, j + 1, j + 2]"] show ?thesis
      unfolding set_unblocked_groups by (simp only: list.set)
  qed
  have built: "getNumResidueBlocks self = length ?groups
        \<and> int (getNumResidueBlocks self) = closed_form_unblocked ?n parallel"
    if "SheetRMSDContent_init pb ab residues numAtoms parallel None normalise = Inr self"
  proof -
    from that have init: "RMSDContent_init ?groups (if parallel then pb else ab) residues numAtoms normalise
                      = Inr self"
      by (simp add: SheetRMSDContent_init_def)
    have num: "num_residue_blocks self = length ?groups" and pos: "1 \<le> length ?groups"
      using RMSDContent_init_Inr [OF init] by simp_all
    have "2 * length ?groups = nat (?n - 2 - ?d) * (nat (?n - 2 - ?d) + 1)"
      by (rule length_unblocked_groups)
    with pos have "nat (?n - 2 - ?d) \<noteq> 0" by (intro notI) simp
    then have "?d + 1 \<le> ?n" by simp
    then show ?thesis
      using num by (simp add: count_unblocked_groups closed_form_unblocked_def getNumResidueBlocks_def)
  qed
  have md: "?d = (if parallel then 6 else 5)" by (simp add: min_distance_def)
  have cnt: "?d + 1 \<le> ?n \<longrightarrow> int (length ?groups) = closed_form_unblocked ?n parallel"
    by (simp add: count_unblocked_groups closed_form_unblocked_def)
  have built': "SheetRMSDContent_init pb ab residues numAtoms parallel None normalise = Inr self \<longrightarrow>
        getNumResidueBlocks self = length ?groups
        \<and> int (getNumResidueBlocks self) = closed_form_unblocked ?n parallel"
    using built by blast
  show ?thesis
    by (intro conjI) (rule md set_unblocked_groups sets distinct_unblocked_groups cnt built')+
qed

lemma length_unblocked_8: "length (unblocked_groups 8 False) = 1"
  using length_unblocked_groups [of 8 False] by (simp add: min_distance_def)

lemma length_unblocked_31: "length (unblocked_groups 31 False) = 300"
  using length_unblocked_groups [of 31 False] by (simp add: min_distance_def)

lemma length_unblocked_41: "length (unblocked_groups 41 False) = 595"
  using length_unblocked_groups [of 41 False] by (simp add: min_distance_def)

theorem unblocked_groups_exact_witness:
  "map_sum id getNumResidueBlocks
     (SheetRMSDContent_init [] [] (replicate 8 ala_example) 40 False None False) = Inr 1
   \<and> closed_form_unblocked 8 False = 1
   \<and> set (unblocked_groups 8 False) = {[0, 1, 2, 5, 6, 7]}"
proof -
  define self where "self = \<lparr>num_residue_blocks = length (unblocked_groups 8 False),
      forces = assembled (length (unblocked_groups 8 False)) False []
                 (group_atoms (replicate 8 [0, 1, 2, 3, 4]) (unblocked_groups 8 False)) 40\<rparr>"
  have atoms: "map_result getAtomList (replicate 8 ala_example) = Inr (replicate 8 [0, 1, 2, 3, 4])"
    by (rule map_result_replicate) (rule getAtomList_ala_example)
  have init: "SheetRMSDContent_init [] [] (replicate 8 ala_example) 40 False None False = Inr self"
    using SheetRMSDContent_init_unblocked_ok [OF atoms, of False "[]" "[]" 40 False]
    by (simp add: length_unblocked_8 self_def)
  from unblocked_groups_exact [of False "replicate 8 ala_example" "[]" "[]" 40 False self] init
  have num: "int (getNumResidueBlocks self) = closed_form_unblocked 8 False"
    and groups: "set (unblocked_groups 8 False)
       = {[i, i + 1, i + 2, j, j + 1, j + 2] | i j. 0 \<le> i \<and> i < 1 \<and> i + 5 \<le> j \<and> j < (6::int)}"
    by (simp_all add: min_distance_def)
  have "{[i, i + 1, i + 2, j, j + 1, j + 2] | i j. 0 \<le> i \<and> i < 1 \<and> i + 5 \<le> j \<and> j < (6::int)}
          = {[0, 1, 2, 5, 6, 7]}"
    by auto
  with groups have g: "set (unblocked_groups 8 False) = {[0, 1, 2, 5, 6, 7]}" by simp
  have c: "closed_form_unblocked 8 False = 1"
    by (simp add: closed_form_unblocked_def min_distance_def)
  with num have "getNumResidueBlocks self = 1" by simp
  with init g c show ?thesis by simp
qed

text \<open>
  \<^bold>\<open>C4\<close> (as amended). With block sizes \<open>n\<^sub>1 \<dots> n\<^sub>m\<close>: the construction fails with the
  configuration error when the sizes do not sum to the number of residues. For sizes
  that are not negative (and whose sum is below \<open>2\<^sup>6\<^sup>3\<close>, as the length of a list is),
  the groups enumerated are exactly the pairs \<open>(i, j)\<close> with \<open>i\<close> in block \<open>k\<close> without
  its last two residues and \<open>j\<close> in block \<open>k + 1\<close> without its last two residues (block
  \<open>k\<close> holding the residues from the sum of the earlier sizes on). Their number is the
  sum of \<open>max(n\<^sub>k - 2, 0) * max(n\<^sub>k\<^sub>+\<^sub>1 - 2, 0)\<close> over consecutive blocks, which is the sum of
  \<open>(n\<^sub>k - 2)(n\<^sub>k\<^sub>+\<^sub>1 - 2)\<close> when every block has at least two residues. The group count of
  every construction that succeeds is the number of groups enumerated.
\<close>

theorem blocked_groups_exact:
  "(sum_list blockSizes \<noteq> int (length residues) \<longrightarrow>
      SheetRMSDContent_init pb ab residues numAtoms parallel (Some blockSizes) normalise
        = Inl (ValueError (sum_mismatch (sum_list blockSizes) (length residues))))
   \<and> ((\<forall>x\<in>set blockSizes. 0 \<le> x) \<and> sum_list blockSizes < 2 ^ 63 \<longrightarrow>
        set (blocked_groups blockSizes)
          = {[i, i + 1, i + 2, j, j + 1, j + 2] | k i j.
               k + 1 < length blockSizes
               \<and> sum_list (take k blockSizes) \<le> i \<and> i < sum_list (take (k + 1) blockSizes) - 2
               \<and> sum_list (take (k + 1) blockSizes) \<le> j \<and> j < sum_list (take (k + 2) blockSizes) - 2}
        \<and> int (length (blocked_groups blockSizes))
            = sum_list (map (\<lambda>k. max 0 (blockSizes ! k - 2) * max 0 (blockSizes ! (k + 1) - 2))
                         [0 ..< length blockSizes - 1])
        \<and> ((\<forall>x\<in>set blockSizes. 2 \<le> x) \<longrightarrow>
              int (length (blocked_groups blockSizes)) = closed_form_blocked blockSizes))
   \<and> (SheetRMSDContent_init pb ab residues numAtoms parallel (Some blockSizes) normalise = Inr self \<longrightarrow>
         sum_list blockSizes = int (length residues)
         \<and> getNumResidueBlocks self = length (blocked_groups blockSizes))"
proof -
  have mismatch: "sum_list blockSizes \<noteq> int (length residues) \<longrightarrow>
      SheetRMSDContent_init pb ab residues numAtoms parallel (Some blockSizes) normalise
        = Inl (ValueError (sum_mismatch (sum_list blockSizes) (length residues)))"
    by (simp add: SheetRMSDContent_init_def)
  have groups: "set (blocked_groups blockSizes)
          = {[i, i + 1, i + 2, j, j + 1, j + 2] | k i j.
               k + 1 < length blockSizes
               \<and> sum_list (take k blockSizes) \<le> i \<and> i < sum_list (take (k + 1) blockSizes) - 2
               \<and> sum_list (take (k + 1) blockSizes) \<le> j \<and> j < sum_list (take (k + 2) blockSizes) - 2}
        \<and> int (length (blocked_groups blockSizes))
            = sum_list (map (\<lambda>k. max 0 (blockSizes ! k - 2) * max 0 (blockSizes ! (k + 1) - 2))
                         [0 ..< length blockSizes - 1])
        \<and> ((\<forall>x\<in>set blockSizes. 2 \<le> x) \<longrightarrow>
              int (length (blocked_groups blockSizes)) = closed_form_blocked blockSizes)"
    if nonneg: "\<forall>x\<in>set blockSizes. 0 \<le> x" and fits: "sum_list blockSizes < 2 ^ 63"
  proof (intro conjI impI)
    show "set (blocked_groups blockSizes)
          = {[i, i + 1, i + 2, j, j + 1, j + 2] | k i j.
               k + 1 < length blockSizes
               \<and> sum_list (take k blockSizes) \<le> i \<and> i < sum_list (take (k + 1) blockSizes) - 2
               \<and> sum_list (take (k + 1) blockSizes) \<le> j \<and> j < sum_list (take (k + 2) blockSizes) - 2}"
      using nonneg fits by (rule set_blocked_groups)
    show "int (length (blocked_groups blockSizes))
            = sum_list (map (\<lambda>k. max 0 (blockSizes ! k - 2) * max 0 (blockSizes ! (k + 1) - 2))
                         [0 ..< length blockSizes - 1])"
      using nonneg fits by (rule count_blocked_groups)
    assume "\<forall>x\<in>set blockSizes. 2 \<le> x"
    then show "int (length (blocked_groups blockSizes)) = closed_form_blocked blockSizes"
      unfolding closed_form_blocked_def using fits by (rule count_blocked_groups_closed_form)
  qed
  have built: "SheetRMSDContent_init pb ab residues numAtoms parallel (Some blockSizes) normalise = Inr self \<longrightarrow>
         sum_list blockSizes = int (length residues)
         \<and> getNumResidueBlocks self = length (blocked_groups blockSizes)"
  proof
    assume ok: "SheetRMSDContent_init pb ab residues numAtoms parallel (Some blockSizes) normalise = Inr self"
    then have total: "sum_list blockSizes = int (length residues)"
      by (simp add: SheetRMSDContent_init_def split: if_splits)
    with ok have "RMSDContent_init (blocked_groups blockSizes) (if parallel then pb else ab)
                    residues numAtoms normalise = Inr self"
      by (simp add: SheetRMSDContent_init_def)
    from RMSDContent_init_Inr(1) [OF this] total
    show "sum_list blockSizes = int (length residues)
         \<and> getNumResidueBlocks self = length (blocked_groups blockSizes)"
      by (simp add: getNumResidueBlocks_def)
  qed
  from groups have groups': "(\<forall>x\<in>set blockSizes. 0 \<le> x) \<and> sum_list blockSizes < 2 ^ 63 \<longrightarrow>
        set (blocked_groups blockSizes)
          = {[i, i + 1, i + 2, j, j + 1, j + 2] | k i j.
               k + 1 < length blockSizes
               \<and> sum_list (take k blockSizes) \<le> i \<and> i < sum_list (take (k + 1) blockSizes) - 2
               \<and> sum_list (take (k + 1) blockSizes) \<le> j \<and> j < sum_list (take (k + 2) blockSizes) - 2}
        \<and> int (length (blocked_groups blockSizes))
            = sum_list (map (\<lambda>k. max 0 (blockSizes ! k - 2) * max 0 (blockSizes ! (k + 1) - 2))
                         [0 ..< length blockSizes - 1])
        \<and> ((\<forall>x\<in>set blockSizes. 2 \<le> x) \<longrightarrow>
              int (length (blocked_groups blockSizes)) = closed_form_blocked blockSizes)"
    by blast
  show ?thesis
    by (intro conjI) (rule mismatch groups' built)+
qed

lemma upt_3: "[0 ..< 2] = [0, Suc 0]"
  by (simp add: upt_rec)

lemma length_blocked_1_5_5: "length (blocked_groups [1, 5, 5]) = 9"
  by (subst length_blocked_groups) simp_all

lemma length_blocked_11_11_9: "length (blocked_groups [11, 11, 9]) = 144"
  by (subst length_blocked_groups) simp_all

text \<open>
  The count \<open>\<Sum> (n\<^sub>k - 2)(n\<^sub>k\<^sub>+\<^sub>1 - 2)\<close> of C4 as it was stated fails for a block of fewer
  than two residues: eleven residues in blocks of 1, 5 and 5 are assembled into 9
  groups, while the formula gives \<open>(-1) * 3 + 3 * 3 = 6\<close>.
\<close>

theorem blocked_count_counterexample:
  "map_sum id getNumResidueBlocks
     (SheetRMSDContent_init [] [] (replicate 11 ala_example) 55 False (Some [1, 5, 5]) False) = Inr 9
   \<and> closed_form_blocked [1, 5, 5] = 6"
proof -
  have atoms: "map_result getAtomList (replicate 11 ala_example) = Inr (replicate 11 [0, 1, 2, 3, 4])"
    by (rule map_result_replicate) (rule getAtomList_ala_example)
  have "SheetRMSDContent_init [] [] (replicate 11 ala_example) 55 False (Some [1, 5, 5]) False
          = Inr \<lparr>num_residue_blocks = length (blocked_groups [1, 5, 5]),
                  forces = assembled (length (blocked_groups [1, 5, 5])) False []
                             (group_atoms (replicate 11 [0, 1, 2, 3, 4]) (blocked_groups [1, 5, 5])) 55\<rparr>"
    using SheetRMSDContent_init_blocked_ok [OF atoms, of "[1, 5, 5]" "[]" "[]" 55 False False]
    by (simp add: length_blocked_1_5_5)
  moreover have "closed_form_blocked [1, 5, 5] = 6"
    by (simp add: closed_form_blocked_def upt_3)
  ultimately show ?thesis
    by (simp add: getNumResidueBlocks_def length_blocked_1_5_5)
qed

theorem blocked_groups_exact_witness:
  "map_sum id getNumResidueBlocks
     (SheetRMSDContent_init [] [] (replicate 31 ala_example) 155 False (Some [11, 11, 9]) False) = Inr 144
   \<and> closed_form_blocked [11, 11, 9] = 144
   \<and> SheetRMSDContent_init [] [] (replicate 30 ala_example) 150 False (Some [11, 11, 9]) False
       = Inl (ValueError ''The sum of block sizes (31) and the number of residues (30) must be equal.'')"
proof -
  define self where "self = \<lparr>num_residue_blocks = length (blocked_groups [11, 11, 9]),
                  forces = assembled (length (blocked_groups [11, 11, 9])) False []
                             (group_atoms (replicate 31 [0, 1, 2, 3, 4]) (blocked_groups [11, 11, 9])) 155\<rparr>"
  have atoms: "map_result getAtomList (replicate 31 ala_example) = Inr (replicate 31 [0, 1, 2, 3, 4])"
    by (rule map_result_replicate) (rule getAtomList_ala_example)
  have init: "SheetRMSDContent_init [] [] (replicate 31 ala_example) 155 False (Some [11, 11, 9]) False
          = Inr self"
    using SheetRMSDContent_init_blocked_ok [OF atoms, of "[11, 11, 9]" "[]" "[]" 155 False False]
    by (simp add: length_blocked_11_11_9 self_def)
  have nonneg: "\<forall>x\<in>set [11, 11, 9 :: int]. 0 \<le> x" and big: "\<forall>x\<in>set [11, 11, 9 :: int]. 2 \<le> x"
    and fits: "sum_list [11, 11, 9 :: int] < 2 ^ 63"
    by simp_all
  from blocked_groups_exact [of "[11, 11, 9]" "replicate 31 ala_example" "[]" "[]" 155 False False self]
    init nonneg big fits
  have "getNumResidueBlocks self = length (blocked_groups [11, 11, 9])"
    and "int (length (blocked_groups [11, 11, 9])) = closed_form_blocked [11, 11, 9]"
    by blast+
  then have a: "getNumResidueBlocks self = 144" and b: "closed_form_blocked [11, 11, 9] = 144"
    by (simp_all add: length_blocked_11_11_9)
  have "sum_mismatch 31 30 = ''The sum of block sizes (31) and the number of residues (30) must be equal.''"
    by (simp add: sum_mismatch_def str_int_def str_nat.simps)
  with blocked_groups_exact [of "[11, 11, 9]" "replicate 30 ala_example" "[]" "[]" 150 False False]
  have c: "SheetRMSDContent_init [] [] (replicate 30 ala_example) 150 False (Some [11, 11, 9]) False
       = Inl (ValueError ''The sum of block sizes (31) and the number of residues (30) must be equal.'')"
    by simp
  from init a b c show ?thesis by simp
qed

text \<open>
  C9 as it was stated fails: a sequence of 41 residues under antiparallel rules gives
  595 groups, not 300.
\<close>

theorem groups_41_residues_counterexample:
  "length (unblocked_groups 41 False) = 595 \<and> length (unblocked_groups 41 False) \<noteq> 300"
  by (simp add: length_unblocked_41)

text \<open>
  \<^bold>\<open>C9\<close> (as amended). A sequence of 31 residues under antiparallel rules, with no block
  sizes, gives 300 groups; the construction succeeds whenever every residue has its
  five-atom list, and assembles them into 10 chunks \<^verbatim>\<open>chunk0\<close> \<dots> \<^verbatim>\<open>chunk9\<close> (11 force
  objects with the composite). The value of the composite is the intended total, the
  sum over the 300 groups of \<open>S (rmsd\<^sub>i / threshold)\<close> (divided by 300 when normalised).
\<close>

theorem sheet_31_residues_300_groups_10_chunks:
  assumes "length residues = 31"
    and "map_result getAtomList residues = Inr atom_lists"
    and "thr \<noteq> 0"
  shows "\<exists>self. SheetRMSDContent_init pb ab residues numAtoms False None normalise = Inr self
      \<and> getNumResidueBlocks self = 300
      \<and> length (unblocked_groups (int (length residues)) False) = 300
      \<and> length (forces self) = 11
      \<and> map fst (variables (forces self ! 0)) = map Chunk [0 ..< 10]
      \<and> (\<forall>fuel. getValue S thr rho (Suc (Suc fuel)) self
            = Some (if normalise
                    then content S thr rho ab (group_atoms atom_lists (unblocked_groups 31 False))
                           numAtoms [0 ..< 300] / 300
                    else content S thr rho ab (group_atoms atom_lists (unblocked_groups 31 False))
                           numAtoms [0 ..< 300]))"
proof -
  define ba where "ba = group_atoms atom_lists (unblocked_groups 31 False)"
  define self where "self = \<lparr>num_residue_blocks = 300, forces = assembled 300 normalise ab ba numAtoms\<rparr>"
  have init: "SheetRMSDContent_init pb ab residues numAtoms False None normalise = Inr self"
    using SheetRMSDContent_init_unblocked_ok [OF assms(2), of False pb ab numAtoms normalise]
    by (simp add: assms(1) length_unblocked_31 self_def ba_def)
  have c: "(300 + 31) div 32 = (10::nat)" by simp
  have store: "forces self = chunked_store (top_expression 300 normalise) ab ba numAtoms 300 300"
    by (simp add: self_def assembled_def)
  have len: "length (forces self) = 11"
    unfolding store chunked_store_def c by simp
  have vars: "map fst (variables (forces self ! 0)) = map Chunk [0 ..< 10]"
    unfolding store chunked_store_def c by (simp add: comp_def del: upt_Suc)
  have val: "getValue S thr rho (Suc (Suc fuel)) self
            = Some (if normalise then content S thr rho ab ba numAtoms [0 ..< 300] / 300
                    else content S thr rho ab ba numAtoms [0 ..< 300])" for fuel
    using value_chunked [OF assms(3), of 300 S rho normalise ab ba numAtoms fuel]
    by (simp add: getValue_def self_def)
  have num: "getNumResidueBlocks self = 300"
    by (simp add: getNumResidueBlocks_def self_def)
  show ?thesis
    using init num len vars val
    by (intro exI[of _ self]) (simp add: assms(1) length_unblocked_31 ba_def)
qed

theorem sheet_31_residues_300_groups_10_chunks_witness:
  "\<exists>self. SheetRMSDContent_init [] [] (replicate 31 ala_example) 155 False None False = Inr self
      \<and> getNumResidueBlocks self = 300 \<and> length (forces self) = 11
      \<and> getValue (\<lambda>x. 1) 1 (\<lambda>ps ats n. 0) 2 self = Some 300"
proof -
  have len: "length (replicate 31 ala_example) = 31" by simp
  have atoms: "map_result getAtomList (replicate 31 ala_example) = Inr (replicate 31 [0, 1, 2, 3, 4])"
    by (rule map_result_replicate) (rule getAtomList_ala_example)
  have thr: "(1::real) \<noteq> 0" by simp
  have two: "(2::nat) = Suc (Suc 0)" by simp
  from sheet_31_residues_300_groups_10_chunks [OF len atoms thr, of "[]" "[]" 155 False "\<lambda>x. 1" "\<lambda>ps ats n. 0"]
  show ?thesis
    unfolding two by (auto simp: content_def sum_list_triv)
qed


section \<open>The claim about chunking and the value\<close>






section \<open>The claim about the shape of the assembly\<close>







lemma no_semi_in_sum:
  assumes "\<And>x. t x \<noteq> TSemi"
  shows "TSemi \<notin> set (join [TPlus] (map (\<lambda>x. [t x]) xs))"
proof
  assume "TSemi \<in> set (join [TPlus] (map (\<lambda>x. [t x]) xs))"
  with set_join [of "[TPlus]" "map (\<lambda>x. [t x]) xs"]
  have "TSemi \<in> set [TPlus] \<union> \<Union> (set ` set (map (\<lambda>x. [t x]) xs))" by (rule subsetD)
  then obtain x where "TSemi = t x" by auto
  then show False using assms [of x] by simp
qed








section \<open>The claim about normalisation\<close>

lemma top_expression_1_True:
  "top_expression (Suc 0) True
     = [TLParen, TStep 0, TSemi, TVar (X 0), TEq, TVar (Rmsd 0), TSlash, TThreshold,
        TRParen, TSlash, TNum (Suc 0)]"
  by (simp add: top_expression_def summation_def expression_def summands_def definitions_def)

lemma energy_value_top_expression_1_True:
  "energy_value S thr env (top_expression (Suc 0) True) = None"
  by (simp add: top_expression_1_True energy_value_def)

text \<open>
  \<^bold>\<open>C5.\<close> With \<^verbatim>\<open>normalize\<close> set and at most 32 groups the division by the number of
  groups is not what the composite computes. Eight residues under antiparallel rules
  give one group; the wrapping \<^verbatim>\<open>f"({summation})/{num_residue_blocks}"\<close> is applied to a
  \<^verbatim>\<open>summation\<close> that already carries its definitions after the semicolon, so the
  opening parenthesis lands in the primary expression and the closing one, with the
  division, in the last definition. The text is printed below for the default step
  function and the default threshold; the engine's reading gives it no value, whatever
  the step function, the threshold and the coordinates. \<^verbatim>\<open>getNumResidueBlocks\<close> still
  returns the number of groups.
\<close>

theorem normalize_single_expression_malformed:
  "map_sum id getNumResidueBlocks
     (SheetRMSDContent_init [] [] (replicate 8 ala_example) 40 False None True) = Inr 1
   \<and> map_sum id (\<lambda>self. render ''(1+x^4)/(1+x^4+x^8)'' ''0.08'' (energy (forces self ! 0)))
       (SheetRMSDContent_init [] [] (replicate 8 ala_example) 40 False None True)
     = Inr ''((1+x0^4)/(1+x0^4+x0^8);x0=rmsd0/0.08)/1''
   \<and> map_sum id (getValue S thr rho fuel)
       (SheetRMSDContent_init [] [] (replicate 8 ala_example) 40 False None True) = Inr None"
proof -
  define self where "self = \<lparr>num_residue_blocks = 1,
      forces = assembled 1 True []
                 (group_atoms (replicate 8 [0, 1, 2, 3, 4]) (unblocked_groups 8 False)) 40\<rparr>"
  have atoms: "map_result getAtomList (replicate 8 ala_example) = Inr (replicate 8 [0, 1, 2, 3, 4])"
    by (rule map_result_replicate) (rule getAtomList_ala_example)
  have init: "SheetRMSDContent_init [] [] (replicate 8 ala_example) 40 False None True = Inr self"
    using SheetRMSDContent_init_unblocked_ok [OF atoms, of False "[]" "[]" 40 True]
    by (simp add: length_unblocked_8 self_def)
  have e: "energy (forces self ! 0) = top_expression (Suc 0) True"
    by (simp add: self_def assembled_def)
  have rendered: "render ''(1+x^4)/(1+x^4+x^8)'' ''0.08'' (top_expression (Suc 0) True)
                = ''((1+x0^4)/(1+x0^4+x0^8);x0=rmsd0/0.08)/1''"
    by (simp add: top_expression_1_True render_def replace_x_def str_nat.simps)
  have val: "getValue S thr rho fuel self = None"
  proof (cases fuel)
    case 0
    then show ?thesis by (simp add: getValue_def)
  next
    case (Suc f)
    then show ?thesis
      by (simp add: getValue_def e energy_value_top_expression_1_True)
  qed
  show ?thesis
    by (simp add: init e rendered val) (simp add: self_def getNumResidueBlocks_def)
qed

text \<open>
  The same holds for every construction that takes the unchunked path with
  \<^verbatim>\<open>normalize\<close> set: for 1 to 32 groups the text of the composite has no value. With
  more than 32 groups the wrapped text holds no definitions and the value is the total
  divided by the number of groups (lemma \<open>value_chunked\<close>).
\<close>

lemma split_on_join_post:
  "xss \<noteq> [] \<Longrightarrow> (\<And>xs. xs \<in> set xss \<Longrightarrow> sep \<notin> set xs) \<Longrightarrow> sep \<notin> set post
   \<Longrightarrow> split_on sep (join [sep] xss @ post) = butlast xss @ [last xss @ post]"
proof (induction xss rule: induct_list012)
  case 1
  then show ?case by simp
next
  case (2 x)
  then show ?case by (simp add: split_on_no_sep)
next
  case (3 x y zs)
  then show ?case by (simp add: split_on_append_sep)
qed

lemma foldr_add_definition_None: "foldr (add_definition S thr) ds None = None"
  by (induction ds) simp_all

lemma add_definition_wrapped:
  "add_definition S thr (definition_of i @ [TRParen, TSlash, TNum n]) env = None"
  by (cases env) (simp_all add: definition_of_def)

lemma normalised_single_expression_no_value:
  assumes "1 \<le> n" and "n \<le> 32"
  shows "energy_value S thr env (top_expression n True) = None"
proof -
  let ?p = "join [TPlus] (map (\<lambda>i. [TStep i]) [0 ..< n])"
  let ?defs = "map definition_of [0 ..< n]"
  let ?post = "[TRParen, TSlash, TNum n]"
  have ne: "?defs \<noteq> []" using assms(1) by simp
  have semi: "TSemi \<notin> set (TLParen # ?p)"
    using no_semi_in_sum [of TStep "[0 ..< n]"] by simp
  have top: "top_expression n True = (TLParen # ?p) @ TSemi # (join [TSemi] ?defs @ ?post)"
  proof -
    obtain d ds where "?defs = d # ds" using ne by (cases ?defs) auto
    then have "expression_over [0 ..< n] = ?p @ TSemi # join [TSemi] ?defs"
      by (simp add: expression_over_def)
    then show ?thesis
      using assms(2) by (simp add: top_expression_def summation_def expression_eq)
  qed
  have "split_on TSemi (join [TSemi] ?defs @ ?post) = butlast ?defs @ [last ?defs @ ?post]"
    using ne by (intro split_on_join_post) (auto simp: definition_of_def)
  moreover have "last ?defs = definition_of (n - 1)"
    using assms(1) by (simp add: last_map)
  ultimately have "split_on TSemi (top_expression n True)
      = (TLParen # ?p) # butlast ?defs @ [definition_of (n - 1) @ ?post]"
    unfolding top using split_on_append_sep [OF semi] by simp
  then show ?thesis
    by (simp add: energy_value_def add_definition_wrapped foldr_add_definition_None)
qed

lemma normalised_single_force_no_value:
  assumes "1 \<le> n" and "n \<le> 32"
  shows "force_value S thr rho (assembled n True ideal ba na) fuel 0 = None"
proof (cases fuel)
  case 0
  then show ?thesis by simp
next
  case (Suc f)
  then show ?thesis
    using assms(2) by (simp add: assembled_def normalised_single_expression_no_value [OF assms])
qed

end
